theory Spec2Isabelle
  imports Complex_Main "HOL-Library.Word" "HOL-Library.Sublist"
begin

section \<open>Floating-point numbers\<close>

text \<open>
  The source keeps positions, expiry times and the constants of the Lorenz system in
  \<open>float\<close> (IEEE 754 binary32) and reads the application time as a \<open>double\<close> (binary64).
  A value of either format is a finite real number, an infinity or a NaN. The two zeros
  are one value here and so are all NaNs: the source adds, subtracts, multiplies,
  converts and compares, and none of these tells two zeros or two NaNs apart. Every
  operation rounds its exact result once, to the nearest value of its format, a tie to
  the even significand. An operation on two floats is carried out in binary32 and is not
  fused with another one (\<open>FLT_EVAL_METHOD\<close> 0, no contraction to a fused multiply-add).
\<close>

datatype ieee = Finite real | PInf | NInf | NaN

type_synonym float = ieee

type_synonym double = ieee

text \<open>\<open>pow2 e\<close> is two to the power \<open>e\<close>, for every integer \<open>e\<close>.\<close>

definition pow2 :: "int \<Rightarrow> real" where
  "pow2 e = (if 0 \<le> e then 2 ^ nat e else 1 / 2 ^ nat (- e))"

text \<open>
  The exponent used for \<open>x\<close> in a format with exponents from \<open>emin\<close> to \<open>emax\<close>: the
  largest \<open>e\<close> in that range with \<open>pow2 e \<le> \<bar>x\<bar>\<close>, and \<open>emin\<close> when there is none (the
  subnormal numbers). It is found by counting up from \<open>emin\<close>.
\<close>

fun binade_from :: "nat \<Rightarrow> int \<Rightarrow> real \<Rightarrow> int" where
  "binade_from 0 e x = e"
| "binade_from (Suc n) e x = (if pow2 (e + 1) \<le> x then binade_from n (e + 1) x else e)"

definition binade :: "int \<Rightarrow> int \<Rightarrow> real \<Rightarrow> int" where
  "binade emin emax x = binade_from (nat (emax - emin)) emin \<bar>x\<bar>"

text \<open>The nearest integer, a tie going to the even one.\<close>

definition round_half_even :: "real \<Rightarrow> int" where
  "round_half_even q =
     (let f = \<lfloor>q\<rfloor>; r = q - of_int f
      in if r < 1 / 2 then f else if 1 / 2 < r then f + 1 else if even f then f else f + 1)"

text \<open>
  Rounding a real number to the format with \<open>p\<close> significand bits and exponents from
  \<open>emin\<close> to \<open>emax\<close>: the nearest multiple of the spacing \<open>pow2 (e - p + 1)\<close> of the
  numbers around it, and an infinity when that multiple is \<open>pow2 (emax + 1)\<close> or larger
  in magnitude.
\<close>

definition round_to :: "nat \<Rightarrow> int \<Rightarrow> int \<Rightarrow> real \<Rightarrow> ieee" where
  "round_to p emin emax x =
     (let q = binade emin emax x - int p + 1;
          y = of_int (round_half_even (x / pow2 q)) * pow2 q
      in if pow2 (emax + 1) \<le> \<bar>y\<bar> then (if 0 < x then PInf else NInf) else Finite y)"

definition round_float :: "real \<Rightarrow> float" where
  "round_float = round_to 24 (- 126) 127"

definition round_double :: "real \<Rightarrow> double" where
  "round_double = round_to 53 (- 1022) 1023"

text \<open>
  The operations, for a rounding function \<open>R\<close>: the exact result of two finite operands
  is rounded by \<open>R\<close>; a NaN operand gives NaN; the infinities follow IEEE 754.
\<close>

fun ieee_neg :: "ieee \<Rightarrow> ieee" where
  "ieee_neg (Finite x) = Finite (- x)"
| "ieee_neg PInf = NInf"
| "ieee_neg NInf = PInf"
| "ieee_neg NaN = NaN"

fun ieee_add :: "(real \<Rightarrow> ieee) \<Rightarrow> ieee \<Rightarrow> ieee \<Rightarrow> ieee" where
  "ieee_add R (Finite x) (Finite y) = R (x + y)"
| "ieee_add R NaN b = NaN"
| "ieee_add R a NaN = NaN"
| "ieee_add R PInf NInf = NaN"
| "ieee_add R NInf PInf = NaN"
| "ieee_add R PInf b = PInf"
| "ieee_add R a PInf = PInf"
| "ieee_add R NInf b = NInf"
| "ieee_add R a NInf = NInf"

definition ieee_sub :: "(real \<Rightarrow> ieee) \<Rightarrow> ieee \<Rightarrow> ieee \<Rightarrow> ieee" where
  "ieee_sub R a b = ieee_add R a (ieee_neg b)"

fun ieee_mul :: "(real \<Rightarrow> ieee) \<Rightarrow> ieee \<Rightarrow> ieee \<Rightarrow> ieee" where
  "ieee_mul R (Finite x) (Finite y) = R (x * y)"
| "ieee_mul R NaN b = NaN"
| "ieee_mul R a NaN = NaN"
| "ieee_mul R (Finite x) PInf = (if x = 0 then NaN else if 0 < x then PInf else NInf)"
| "ieee_mul R (Finite x) NInf = (if x = 0 then NaN else if 0 < x then NInf else PInf)"
| "ieee_mul R PInf (Finite y) = (if y = 0 then NaN else if 0 < y then PInf else NInf)"
| "ieee_mul R NInf (Finite y) = (if y = 0 then NaN else if 0 < y then NInf else PInf)"
| "ieee_mul R PInf PInf = PInf"
| "ieee_mul R PInf NInf = NInf"
| "ieee_mul R NInf PInf = NInf"
| "ieee_mul R NInf NInf = PInf"

text \<open>\<open>a > b\<close>: false whenever an operand is a NaN.\<close>

fun ieee_greater :: "ieee \<Rightarrow> ieee \<Rightarrow> bool" where
  "ieee_greater (Finite x) (Finite y) = (y < x)"
| "ieee_greater NaN b = False"
| "ieee_greater a NaN = False"
| "ieee_greater NInf b = False"
| "ieee_greater a PInf = False"
| "ieee_greater PInf b = True"
| "ieee_greater a NInf = True"

text \<open>The conversion of a value to the format that \<open>R\<close> rounds to.\<close>

fun ieee_convert :: "(real \<Rightarrow> ieee) \<Rightarrow> ieee \<Rightarrow> ieee" where
  "ieee_convert R (Finite x) = R x"
| "ieee_convert R PInf = PInf"
| "ieee_convert R NInf = NInf"
| "ieee_convert R NaN = NaN"

definition float_add :: "float \<Rightarrow> float \<Rightarrow> float" where
  "float_add a b = ieee_add round_float a b"

definition float_sub :: "float \<Rightarrow> float \<Rightarrow> float" where
  "float_sub a b = ieee_sub round_float a b"

definition float_mul :: "float \<Rightarrow> float \<Rightarrow> float" where
  "float_mul a b = ieee_mul round_float a b"

definition double_add :: "double \<Rightarrow> double \<Rightarrow> double" where
  "double_add a b = ieee_add round_double a b"

definition float_of_double :: "double \<Rightarrow> float" where
  "float_of_double a = ieee_convert round_float a"

text \<open>
  \<open>float b = 2.667;\<close>: the decimal literal is a \<open>double\<close>, the nearest one to the number
  written, and the initialisation converts it to \<open>float\<close>.
\<close>

definition float_literal :: "real \<Rightarrow> float" where
  "float_literal x = float_of_double (round_double x)"

section \<open>Particles (StrangeAttractors.cpp, lines 41-43)\<close>

text \<open>
  A \<open>ParticleVertex\<close> is \<open>GLGeometry::Vertex<void,0,GLubyte,4,void,float,3>\<close>: four
  \<open>GLubyte\<close> colour channels and a position of three floats. The colour channels are
  bytes (\<open>8 word\<close>).
\<close>

type_synonym GLubyte = "8 word"

type_synonym Vector = "float \<times> float \<times> float"

record ParticleVertex =
  color0 :: GLubyte
  color1 :: GLubyte
  color2 :: GLubyte
  color3 :: GLubyte
  position :: Vector

text \<open>Componentwise \<open>dot*t\<close> and \<open>position += v\<close> of the geometry library.\<close>

fun vec_scale :: "Vector \<Rightarrow> float \<Rightarrow> Vector" where
  "vec_scale (a, b, c) k = (float_mul a k, float_mul b k, float_mul c k)"

fun vec_add :: "Vector \<Rightarrow> Vector \<Rightarrow> Vector" where
  "vec_add (a, b, c) (d, e, f) = (float_add a d, float_add b e, float_add c f)"

subsection \<open>The colour fade: \<open>pv.color[i] -= .1\<close> on a byte\<close>

text \<open>
  \<open>pv.color[i] -= .1\<close> converts the byte to \<open>double\<close>, subtracts \<open>0.1\<close> and converts
  the result back to \<open>GLubyte\<close>; the conversion of a floating value to an integer type
  truncates towards zero. For a byte \<open>c\<close> the difference lies strictly between
  \<open>c - 1\<close> and \<open>c\<close>, also after rounding to a double, so exact arithmetic gives the same
  truncated value as the machine does.
\<close>

definition truncate_toward_zero :: "real \<Rightarrow> int" where
  "truncate_toward_zero x = (if 0 \<le> x then \<lfloor>x\<rfloor> else \<lceil>x\<rceil>)"

definition sub_tenth :: "GLubyte \<Rightarrow> GLubyte" where
  "sub_tenth c = word_of_int (truncate_toward_zero (real_of_int (uint c) - 1 / 10))"

text \<open>Lines 130-142: the \<open>if\<close> / \<open>else if\<close> / \<open>else\<close> chain on green, red, blue.\<close>

definition update_color :: "ParticleVertex \<Rightarrow> ParticleVertex" where
  "update_color pv =
     (if color1 pv > 0 then pv\<lparr>color1 := sub_tenth (color1 pv)\<rparr>
      else if color0 pv > 0 then pv\<lparr>color0 := sub_tenth (color0 pv)\<rparr>
      else pv\<lparr>color2 := sub_tenth (color2 pv)\<rparr>)"

subsection \<open>The Lorenz step (lines 105-107, 119-128, 145)\<close>

text \<open>
  \<open>float s = 10; float r = 28; float b = 2.667;\<close> and the three components of \<open>dot\<close>,
  every operation on floats.
\<close>

definition lorenz_dot :: "Vector \<Rightarrow> Vector" where
  "lorenz_dot p =
     (let s = Finite 10; r = Finite 28; b = float_literal 2.667 in
      case p of (x, y, z) \<Rightarrow>
        (float_mul s (float_sub y x),
         float_sub (float_mul x (float_sub r z)) y,
         float_sub (float_mul x y) (float_mul b z)))"

text \<open>
  The body of the loop for one particle that is carried over (lines 117-145): the
  derivative is computed from the old position, the colour is faded, and then
  \<open>pv.position += dot*t\<close> with \<open>float t = 0.003\<close>.
\<close>

definition integrate :: "ParticleVertex \<Rightarrow> ParticleVertex" where
  "integrate pv0 =
     (let dot = lorenz_dot (position pv0);
          t = float_literal 0.003;
          pv = update_color pv0
      in pv\<lparr>position := vec_add (position pv) (vec_scale dot t)\<rparr>)"

text \<open>
  The loop body of \<open>Animation::updateMesh\<close> (StrangeAttractorsArray.cpp, lines 67-87):
  the same step without the colour fade.
\<close>

definition integrate_Array :: "ParticleVertex \<Rightarrow> ParticleVertex" where
  "integrate_Array pv =
     (let dot = lorenz_dot (position pv);
          t = float_literal 0.003
      in pv\<lparr>position := vec_add (position pv) (vec_scale dot t)\<rparr>)"

section \<open>Snapshots and the clock\<close>

text \<open>The struct \<open>ParticleTimeList\<close> (lines 52-55): the value held by each triple buffer slot.\<close>

record ParticleTimeList =
  particleList :: "ParticleVertex list"
  timeList :: "float list"

text \<open>
  \<open>Vrui::getApplicationTime()\<close> belongs to the toolkit and is read once per old particle
  and once per drained queue item. A \<open>clock\<close> gives the value of the \<open>k\<close>-th call made
  during one run of \<open>updateMesh\<close>, so the readings of one tick need not agree. A reading
  is a finite \<open>double\<close>, given here by the real number it stands for.
\<close>

type_synonym clock = "nat \<Rightarrow> real"

definition constant_clock :: "real \<Rightarrow> clock" where
  "constant_clock now = (\<lambda>k. now)"

text \<open>
  \<open>timeList.push_back(Vrui::getApplicationTime()+timeDecay)\<close>: \<open>timeDecay\<close> is a
  \<open>float\<close> and is converted to \<open>double\<close> as it is, the sum is a \<open>double\<close>, and storing
  it into the \<open>std::vector<float>\<close> converts it to \<open>float\<close>.
\<close>

definition expiry_time :: "real \<Rightarrow> float \<Rightarrow> float" where
  "expiry_time now td = float_of_double (double_add (Finite now) td)"

section \<open>The ring buffer of seeded particles\<close>

text \<open>
  Modelled from the spec: \<open>Threads::RingBuffer\<close> (Threads/RingBuffer.h of the Vrui
  toolkit) is not under src/. After section 3 of the spec, BoundedQueue: a fixed-capacity
  circular array, a count of occupied entries, and head and tail indices.
\<close>

record 'a RingBuffer =
  rb_capacity :: nat
  rb_entries :: "'a list"
  rb_head :: nat
  rb_tail :: nat
  rb_count :: nat

text \<open>
  Modelled from the spec: the queue of the constructor call \<open>inputParticles(100)\<close>. The
  initial content of the array is not specified; it is the parameter \<open>d\<close>.
\<close>

definition RingBuffer_new :: "nat \<Rightarrow> 'a \<Rightarrow> 'a RingBuffer" where
  "RingBuffer_new n d =
     \<lparr>rb_capacity = n, rb_entries = replicate n d, rb_head = 0, rb_tail = 0, rb_count = 0\<rparr>"

text \<open>Modelled from the spec: \<open>is_empty\<close> of section 4.2, the source's \<open>empty()\<close>.\<close>

definition RingBuffer_empty :: "'a RingBuffer \<Rightarrow> bool" where
  "RingBuffer_empty q = (rb_count q = 0)"

text \<open>
  Modelled from the spec: \<open>push\<close> of section 4.2, which enqueues at the tail if the
  capacity allows and reports \<open>Full\<close> (here \<open>None\<close>) otherwise.
\<close>

definition RingBuffer_push :: "'a \<Rightarrow> 'a RingBuffer \<Rightarrow> 'a RingBuffer option" where
  "RingBuffer_push x q =
     (if rb_count q < rb_capacity q
      then Some (q\<lparr>rb_entries := (rb_entries q)[rb_tail q := x],
                   rb_tail := (rb_tail q + 1) mod rb_capacity q,
                   rb_count := rb_count q + 1\<rparr>)
      else None)"

text \<open>
  Modelled from the spec: \<open>pop\<close> of section 4.2, the source's \<open>read()\<close>: dequeues from
  the head if the queue is not empty, never blocks, returns nothing if it is empty.
\<close>

definition RingBuffer_read :: "'a RingBuffer \<Rightarrow> ('a \<times> 'a RingBuffer) option" where
  "RingBuffer_read q =
     (if rb_count q = 0 then None
      else Some (rb_entries q ! rb_head q,
                 q\<lparr>rb_head := (rb_head q + 1) mod rb_capacity q,
                   rb_count := rb_count q - 1\<rparr>))"

text \<open>
  Modelled from the spec: the source's \<open>write(pv)\<close>, whose result the caller ignores
  (line 323). Section 7 of the spec leaves the policy on a full queue open and recommends
  dropping the item; the model drops it.
\<close>

definition RingBuffer_write :: "'a \<Rightarrow> 'a RingBuffer \<Rightarrow> 'a RingBuffer" where
  "RingBuffer_write x q = (case RingBuffer_push x q of Some q' \<Rightarrow> q' | None \<Rightarrow> q)"

text \<open>The queued items, oldest first, and the representation invariant of the array.\<close>

definition RingBuffer_contents :: "'a RingBuffer \<Rightarrow> 'a list" where
  "RingBuffer_contents q =
     map (\<lambda>i. rb_entries q ! ((rb_head q + i) mod rb_capacity q)) [0..<rb_count q]"

definition RingBuffer_inv :: "'a RingBuffer \<Rightarrow> bool" where
  "RingBuffer_inv q =
     (length (rb_entries q) = rb_capacity q \<and> rb_head q < rb_capacity q \<and>
      rb_count q \<le> rb_capacity q \<and>
      rb_tail q = (rb_head q + rb_count q) mod rb_capacity q)"

text \<open>Pushing a list of items in order, as successive calls of \<open>push\<close> do.\<close>

fun RingBuffer_push_all :: "'a list \<Rightarrow> 'a RingBuffer \<Rightarrow> 'a RingBuffer option" where
  "RingBuffer_push_all [] q = Some q"
| "RingBuffer_push_all (x # xs) q =
     (case RingBuffer_push x q of None \<Rightarrow> None | Some q' \<Rightarrow> RingBuffer_push_all xs q')"

text \<open>Popping \<open>n\<close> times; the items come out in the order of the calls.\<close>

fun RingBuffer_read_n :: "nat \<Rightarrow> 'a RingBuffer \<Rightarrow> ('a list \<times> 'a RingBuffer) option" where
  "RingBuffer_read_n 0 q = Some ([], q)"
| "RingBuffer_read_n (Suc n) q =
     (case RingBuffer_read q of
        None \<Rightarrow> None
      | Some (x, q') \<Rightarrow>
          (case RingBuffer_read_n n q' of
             None \<Rightarrow> None
           | Some (xs, q'') \<Rightarrow> Some (x # xs, q'')))"

section \<open>The triple buffer of snapshots\<close>

text \<open>
  Modelled from the spec: \<open>Threads::TripleBuffer\<close> (Threads/TripleBuffer.h of the Vrui
  toolkit) is not under src/. After sections 3 and 4.1 of the spec, SnapshotChannel: three
  storage slots and three roles (write slot, posted slot, read slot) that rotate, and
  whether the posted value is newer than the one the consumer holds.
\<close>

datatype slot = Slot0 | Slot1 | Slot2

record 'a TripleBuffer =
  tb_slots :: "slot \<Rightarrow> 'a"
  tb_write :: slot
  tb_posted :: slot
  tb_read :: slot
  tb_fresh :: bool

text \<open>Modelled from the spec: the channel as created, every slot holding the value \<open>v\<close>.\<close>

definition TripleBuffer_new :: "'a \<Rightarrow> 'a TripleBuffer" where
  "TripleBuffer_new v =
     \<lparr>tb_slots = (\<lambda>i. v), tb_write = Slot0, tb_posted = Slot1, tb_read = Slot2,
      tb_fresh = False\<rparr>"

text \<open>
  Modelled from the spec: \<open>start_write\<close>, the source's \<open>startNewValue()\<close>. The reference
  it returns is the identity of the write slot.
\<close>

definition startNewValue :: "'a TripleBuffer \<Rightarrow> slot" where
  "startNewValue tb = tb_write tb"

text \<open>
  Modelled from the spec: \<open>commit_write\<close>, the source's \<open>postNewValue()\<close>. The slot just
  written becomes the posted one; the slot it displaces is the next write target.
\<close>

definition postNewValue :: "'a TripleBuffer \<Rightarrow> 'a TripleBuffer" where
  "postNewValue tb = tb\<lparr>tb_write := tb_posted tb, tb_posted := tb_write tb, tb_fresh := True\<rparr>"

text \<open>
  Modelled from the spec: \<open>try_acquire_latest\<close>, the source's \<open>lockNewValue()\<close>. If a
  value newer than the consumer's exists, the posted slot becomes the read slot and the
  result is true; otherwise the result is false and the read slot stays.
\<close>

definition lockNewValue :: "'a TripleBuffer \<Rightarrow> bool \<times> 'a TripleBuffer" where
  "lockNewValue tb =
     (if tb_fresh tb
      then (True, tb\<lparr>tb_read := tb_posted tb, tb_posted := tb_read tb, tb_fresh := False\<rparr>)
      else (False, tb))"

text \<open>Modelled from the spec: \<open>read\<close>, the source's \<open>getLockedValue()\<close>.\<close>

definition getLockedValue :: "'a TripleBuffer \<Rightarrow> 'a" where
  "getLockedValue tb = tb_slots tb (tb_read tb)"

section \<open>The application object (lines 48-61)\<close>

text \<open>
  The pointers \<open>oldParticleList\<close> and \<open>oldTimeList\<close> point into a triple buffer slot and
  are modelled by the slot they point into. The source of the vertex buffer, set by
  \<open>setSource(size, data)\<close>, is the number of vertices and the slot whose vector is drawn.
\<close>

record StrangeAttractors =
  timeDecay :: float
  particleVertices :: "ParticleTimeList TripleBuffer"
  inputParticles :: "ParticleVertex RingBuffer"
  oldParticleList :: slot
  oldTimeList :: slot
  vertexBuffer :: "(nat \<times> slot) option"

subsection \<open>\<open>updateMesh\<close> (lines 100-159)\<close>

text \<open>
  The \<open>for\<close> loop (lines 111-150) walks the old particle list and the old time list with
  two iterators in step. Reading the time iterator past the end of its vector is undefined
  behaviour; the model returns \<open>None\<close> there. \<open>k\<close> counts the calls of the clock. In
  \<open>tp>Vrui::getApplicationTime()\<close> the float \<open>tp\<close> is converted to \<open>double\<close> as it is.
\<close>

fun updateMesh_for ::
  "clock \<Rightarrow> nat \<Rightarrow> ParticleVertex list \<Rightarrow> float list \<Rightarrow> ParticleTimeList \<Rightarrow>
   (nat \<times> ParticleTimeList) option" where
  "updateMesh_for clk k [] otl this = Some (k, this)"
| "updateMesh_for clk k (pv # opl) [] this = None"
| "updateMesh_for clk k (pv # opl) (tp # otl) this =
     (if ieee_greater tp (Finite (clk k))
      then updateMesh_for clk (Suc k) opl otl
             (this\<lparr>particleList := particleList this @ [integrate pv],
                   timeList := timeList this @ [tp]\<rparr>)
      else updateMesh_for clk (Suc k) opl otl this)"

text \<open>The \<open>while\<close> loop (lines 151-155) that drains the ring buffer.\<close>

function updateMesh_while ::
  "clock \<Rightarrow> nat \<Rightarrow> float \<Rightarrow> ParticleVertex RingBuffer \<Rightarrow> ParticleTimeList \<Rightarrow>
   ParticleVertex RingBuffer \<times> ParticleTimeList" where
  "updateMesh_while clk k td q this =
     (if RingBuffer_empty q then (q, this)
      else case RingBuffer_read q of
             None \<Rightarrow> (q, this)
           | Some (pv, q') \<Rightarrow>
               updateMesh_while clk (Suc k) td q'
                 (this\<lparr>particleList := particleList this @ [pv],
                       timeList := timeList this @ [expiry_time (clk k) td]\<rparr>))"
  by pat_completeness auto
termination
  by (relation "measure (\<lambda>(clk, k, td, q, this). rb_count q)")
     (auto simp: RingBuffer_empty_def RingBuffer_read_def split: if_splits)

declare updateMesh_while.simps [simp del]

text \<open>
  \<open>updateMesh\<close> clears the slot it is given, runs the two loops and redirects the two
  pointers (lines 157-158). The old lists are read from the store after the clearing, so
  a call whose target is the slot the pointers point into finds them empty.
\<close>

definition updateMesh :: "clock \<Rightarrow> slot \<Rightarrow> StrangeAttractors \<Rightarrow> StrangeAttractors option" where
  "updateMesh clk thisParticleTimeList st =
     (let tb = particleVertices st;
          cleared = (tb_slots tb)(thisParticleTimeList := \<lparr>particleList = [], timeList = []\<rparr>);
          opl = particleList (cleared (oldParticleList st));
          otl = timeList (cleared (oldTimeList st))
      in case updateMesh_for clk 0 opl otl (cleared thisParticleTimeList) of
           None \<Rightarrow> None
         | Some (k, this1) \<Rightarrow>
             (case updateMesh_while clk k (timeDecay st) (inputParticles st) this1 of
                (q, this2) \<Rightarrow>
                  Some (st\<lparr>particleVertices := tb\<lparr>tb_slots := cleared(thisParticleTimeList := this2)\<rparr>,
                           inputParticles := q,
                           oldParticleList := thisParticleTimeList,
                           oldTimeList := thisParticleTimeList\<rparr>)))"

subsection \<open>The background thread (lines 161-181)\<close>

text \<open>One iteration of the \<open>while(true)\<close> loop: start a new value, update, post.\<close>

definition strangeAttractorsThreadMethod_iteration ::
  "clock \<Rightarrow> StrangeAttractors \<Rightarrow> StrangeAttractors option" where
  "strangeAttractorsThreadMethod_iteration clk st =
     (let thisParticleTimeList = startNewValue (particleVertices st)
      in case updateMesh clk thisParticleTimeList st of
           None \<Rightarrow> None
         | Some st1 \<Rightarrow> Some (st1\<lparr>particleVertices := postNewValue (particleVertices st1)\<rparr>))"

text \<open>The first iterations of the loop, one clock for each.\<close>

fun strangeAttractorsThreadMethod ::
  "clock list \<Rightarrow> StrangeAttractors \<Rightarrow> StrangeAttractors option" where
  "strangeAttractorsThreadMethod [] st = Some st"
| "strangeAttractorsThreadMethod (clk # clks) st =
     (case strangeAttractorsThreadMethod_iteration clk st of
        None \<Rightarrow> None
      | Some st1 \<Rightarrow> strangeAttractorsThreadMethod clks st1)"

subsection \<open>The constructor (lines 183-220)\<close>

text \<open>
  The constructor fills the first slot with \<open>initParticleSize = 100\<close> random particles
  whose expiry is the time read for each plus \<open>timeDecay = 10\<close>, stored as a float, and
  posts it. The random
  particles are the parameter \<open>rnd\<close>; \<open>d\<close> is the initial content of the ring buffer.
\<close>

definition StrangeAttractors_new ::
  "(nat \<Rightarrow> ParticleVertex) \<Rightarrow> clock \<Rightarrow> ParticleVertex \<Rightarrow> StrangeAttractors" where
  "StrangeAttractors_new rnd clk d =
     (let initParticleSize = 100;
          td = Finite 10;
          tb = TripleBuffer_new \<lparr>particleList = [], timeList = []\<rparr>;
          thisParticleTimeList = startNewValue tb;
          filled = \<lparr>particleList = map rnd [0..<initParticleSize],
                    timeList = map (\<lambda>i. expiry_time (clk i) td) [0..<initParticleSize]\<rparr>
      in \<lparr>timeDecay = td,
          particleVertices =
            postNewValue (tb\<lparr>tb_slots := (tb_slots tb)(thisParticleTimeList := filled)\<rparr>),
          inputParticles = RingBuffer_new 100 d,
          oldParticleList = thisParticleTimeList,
          oldTimeList = thisParticleTimeList,
          vertexBuffer = None\<rparr>)"

subsection \<open>The foreground: \<open>frame\<close> (lines 229-239) and the seeding tool (lines 307-326)\<close>

definition frame :: "StrangeAttractors \<Rightarrow> StrangeAttractors" where
  "frame st =
     (case lockNewValue (particleVertices st) of
        (isNew, tb) \<Rightarrow>
          if isNew
          then (let thisParticleList = getLockedValue tb
                in st\<lparr>particleVertices := tb,
                      vertexBuffer := Some (length (particleList thisParticleList), tb_read tb)\<rparr>)
          else st\<lparr>particleVertices := tb\<rparr>)"

text \<open>
  \<open>SeedParticlesTool::frame\<close>: while the button is held, one particle (its position and
  colours are random, here the parameter \<open>pv\<close>) is written to the ring buffer.
\<close>

definition SeedParticlesTool_frame ::
  "bool \<Rightarrow> ParticleVertex \<Rightarrow> StrangeAttractors \<Rightarrow> StrangeAttractors" where
  "SeedParticlesTool_frame buttonState pv st =
     (if buttonState then st\<lparr>inputParticles := RingBuffer_write pv (inputParticles st)\<rparr>
      else st)"

text \<open>What can happen between two calls of \<open>frame\<close>: ticks of the thread and seedings.\<close>

datatype event = Tick clock | Seed ParticleVertex

fun run :: "event list \<Rightarrow> StrangeAttractors \<Rightarrow> StrangeAttractors option" where
  "run [] st = Some st"
| "run (Tick clk # evs) st =
     (case strangeAttractorsThreadMethod_iteration clk st of
        None \<Rightarrow> None
      | Some st1 \<Rightarrow> run evs st1)"
| "run (Seed pv # evs) st = run evs (SeedParticlesTool_frame True pv st)"

fun is_Tick :: "event \<Rightarrow> bool" where
  "is_Tick (Tick clk) = True"
| "is_Tick (Seed pv) = False"

subsection \<open>\<open>Animation::updateMesh\<close> (StrangeAttractorsArray.cpp, lines 59-90)\<close>

text \<open>The variant without expiry and without a queue: every particle is integrated.\<close>

fun Animation_updateMesh_for :: "ParticleVertex list \<Rightarrow> ParticleVertex list \<Rightarrow> ParticleVertex list" where
  "Animation_updateMesh_for [] pl = pl"
| "Animation_updateMesh_for (pv # opl) pl = Animation_updateMesh_for opl (pl @ [integrate_Array pv])"

definition Animation_updateMesh :: "ParticleVertex list \<Rightarrow> ParticleVertex list" where
  "Animation_updateMesh opl = Animation_updateMesh_for opl []"

subsection \<open>\<open>StrangeAttractors::updateMesh\<close> of StrangeAttractorsInputP2.cpp (lines 92-126)\<close>

text \<open>
  The variant with seeding and without expiry: the \<open>for\<close> loop is that of
  \<open>Animation::updateMesh\<close>, and the \<open>while\<close> loop (lines 120-123) drains the ring buffer
  into the particle list.
\<close>

function InputP2_updateMesh_while ::
  "ParticleVertex RingBuffer \<Rightarrow> ParticleVertex list \<Rightarrow>
   ParticleVertex RingBuffer \<times> ParticleVertex list" where
  "InputP2_updateMesh_while q pl =
     (if RingBuffer_empty q then (q, pl)
      else case RingBuffer_read q of
             None \<Rightarrow> (q, pl)
           | Some (pv, q') \<Rightarrow> InputP2_updateMesh_while q' (pl @ [pv]))"
  by pat_completeness auto
termination
  by (relation "measure (\<lambda>(q, pl). rb_count q)")
     (auto simp: RingBuffer_empty_def RingBuffer_read_def split: if_splits)

declare InputP2_updateMesh_while.simps [simp del]

definition InputP2_updateMesh ::
  "ParticleVertex list \<Rightarrow> ParticleVertex RingBuffer \<Rightarrow>
   ParticleVertex RingBuffer \<times> ParticleVertex list" where
  "InputP2_updateMesh opl q = InputP2_updateMesh_while q (Animation_updateMesh_for opl [])"

section \<open>Notions used to state the properties\<close>

text \<open>
  The pairs of an old snapshot that one run of the \<open>for\<close> loop carries over: the
  \<open>i\<close>-th pair is kept when its expiry time is later than the clock's \<open>i\<close>-th reading
  (counted from \<open>k\<close>).
\<close>

definition carried ::
  "clock \<Rightarrow> nat \<Rightarrow> (ParticleVertex \<times> float) list \<Rightarrow> (ParticleVertex \<times> float) list" where
  "carried clk k ps =
     map snd (filter (\<lambda>(i, pv, tp). ieee_greater tp (Finite (clk i))) (enumerate k ps))"

text \<open>The snapshot most recently written: what the two pointers point at.\<close>

definition latest :: "StrangeAttractors \<Rightarrow> ParticleTimeList" where
  "latest st =
     \<lparr>particleList = particleList (tb_slots (particleVertices st) (oldParticleList st)),
      timeList = timeList (tb_slots (particleVertices st) (oldTimeList st))\<rparr>"

text \<open>The value in the posted slot.\<close>

definition posted :: "StrangeAttractors \<Rightarrow> ParticleTimeList" where
  "posted st = tb_slots (particleVertices st) (tb_posted (particleVertices st))"

text \<open>
  What a call of \<open>updateMesh\<close> needs: its target is not the slot the pointers point at,
  the two old lists have the same length, and the ring buffer is consistent.
\<close>

definition updateMesh_pre :: "slot \<Rightarrow> StrangeAttractors \<Rightarrow> bool" where
  "updateMesh_pre thisParticleTimeList st =
     (thisParticleTimeList \<noteq> oldParticleList st \<and> thisParticleTimeList \<noteq> oldTimeList st \<and>
      length (particleList (latest st)) = length (timeList (latest st)) \<and>
      RingBuffer_inv (inputParticles st))"

text \<open>The expiry times given to the items drained by one run of the \<open>while\<close> loop.\<close>

definition birth_times :: "clock \<Rightarrow> nat \<Rightarrow> float \<Rightarrow> nat \<Rightarrow> float list" where
  "birth_times clk k td n = map (\<lambda>j. expiry_time (clk (k + j)) td) [0..<n]"

text \<open>
  The states the program reaches: the three roles are held by three different slots, both
  pointers point at the snapshot written last (the posted one until the consumer takes
  it, the read one after), the two lists of that snapshot have the same length, and the
  ring buffer is consistent.
\<close>

definition app_inv :: "StrangeAttractors \<Rightarrow> bool" where
  "app_inv st =
     (let tb = particleVertices st in
      distinct [tb_write tb, tb_posted tb, tb_read tb] \<and>
      oldTimeList st = oldParticleList st \<and>
      oldParticleList st = (if tb_fresh tb then tb_posted tb else tb_read tb) \<and>
      length (particleList (latest st)) = length (timeList (latest st)) \<and>
      RingBuffer_inv (inputParticles st))"

text \<open>
  One explicit Euler step of the Lorenz system, as section 4.3 of the spec writes it, on
  real numbers.
\<close>

definition spec_euler_step ::
  "real \<Rightarrow> real \<Rightarrow> real \<Rightarrow> real \<Rightarrow> real \<times> real \<times> real \<Rightarrow> real \<times> real \<times> real" where
  "spec_euler_step \<sigma> \<rho> \<beta> \<Delta>t p =
     (case p of (x, y, z) \<Rightarrow>
        (x + \<Delta>t * (\<sigma> * (y - x)), y + \<Delta>t * (x * (\<rho> - z) - y), z + \<Delta>t * (x * y - \<beta> * z)))"

text \<open>
  The same step with every sum, difference and product carried out and rounded in
  \<open>float\<close>, for constants that are floats.
\<close>

definition float_euler_step :: "float \<Rightarrow> float \<Rightarrow> float \<Rightarrow> float \<Rightarrow> Vector \<Rightarrow> Vector" where
  "float_euler_step \<sigma> \<rho> \<beta> \<Delta>t p =
     (case p of (x, y, z) \<Rightarrow>
        (float_add x (float_mul \<Delta>t (float_mul \<sigma> (float_sub y x))),
         float_add y (float_mul \<Delta>t (float_sub (float_mul x (float_sub \<rho> z)) y)),
         float_add z (float_mul \<Delta>t (float_sub (float_mul x y) (float_mul \<beta> z)))))"

text \<open>
  What section 4.3, step 2 of the spec asks of the colours of a particle \<open>pv'\<close> that one
  tick made of \<open>pv\<close>: the first channel that is still positive, in the order green, red,
  blue, is one less, the others are unchanged, and no channel has wrapped around.
\<close>

definition fade_of :: "ParticleVertex \<Rightarrow> ParticleVertex \<Rightarrow> bool" where
  "fade_of pv pv' =
     ((color0 pv', color1 pv', color2 pv', color3 pv') =
        (if 0 < color1 pv then (color0 pv, color1 pv - 1, color2 pv, color3 pv)
         else if 0 < color0 pv then (color0 pv - 1, color1 pv, color2 pv, color3 pv)
         else if 0 < color2 pv then (color0 pv, color1 pv, color2 pv - 1, color3 pv)
         else (color0 pv, color1 pv, color2 pv, color3 pv)) \<and>
      unat (color0 pv') \<le> unat (color0 pv) \<and>
      unat (color1 pv') \<le> unat (color1 pv) \<and>
      unat (color2 pv') \<le> unat (color2 pv))"

text \<open>
  The indices of the old particles whose expiry time is later than the time read for
  them: the \<open>i\<close>-th old particle is examined at the clock's \<open>i\<close>-th reading.
\<close>

definition alive_indices :: "clock \<Rightarrow> float list \<Rightarrow> nat list" where
  "alive_indices clk otl =
     filter (\<lambda>i. ieee_greater (otl ! i) (Finite (clk i))) [0..<length otl]"


text \<open>
  The snapshot that one tick makes of the snapshot \<open>old\<close> and the seeded particles: the
  closed form of the two loops of \<open>updateMesh\<close>.
\<close>

definition next_snapshot ::
  "clock \<Rightarrow> float \<Rightarrow> ParticleTimeList \<Rightarrow> ParticleVertex list \<Rightarrow> ParticleTimeList" where
  "next_snapshot clk td old seeded =
     \<lparr>particleList =
        map (integrate \<circ> fst) (carried clk 0 (zip (particleList old) (timeList old))) @ seeded,
      timeList =
        map snd (carried clk 0 (zip (particleList old) (timeList old)))
        @ birth_times clk (length (particleList old)) td (length seeded)\<rparr>"

section \<open>A small state for examples\<close>

text \<open>
  Two particles in the posted slot, the first expiring at time 9 and the second at time 3,
  and one seeded particle in the ring buffer.
\<close>

definition pv_a :: ParticleVertex where
  "pv_a = \<lparr>color0 = 90, color1 = 0, color2 = 40, color3 = 255,
            position = (Finite 1, Finite 1, Finite 1)\<rparr>"

definition pv_b :: ParticleVertex where
  "pv_b = \<lparr>color0 = 5, color1 = 6, color2 = 7, color3 = 255,
            position = (Finite 2, Finite 0, Finite 5)\<rparr>"

definition pv_c :: ParticleVertex where
  "pv_c = \<lparr>color0 = 33, color1 = 34, color2 = 35, color3 = 255,
            position = (Finite 0, Finite 3, Finite 0)\<rparr>"

definition example_app :: StrangeAttractors where
  "example_app =
     \<lparr>timeDecay = Finite 10,
      particleVertices =
        \<lparr>tb_slots = (\<lambda>i. \<lparr>particleList = [], timeList = []\<rparr>)
           (Slot1 := \<lparr>particleList = [pv_a, pv_b], timeList = [Finite 9, Finite 3]\<rparr>),
         tb_write = Slot0, tb_posted = Slot1, tb_read = Slot2, tb_fresh = True\<rparr>,
      inputParticles = RingBuffer_write pv_c (RingBuffer_new 100 pv_b),
      oldParticleList = Slot1,
      oldTimeList = Slot1,
      vertexBuffer = None\<rparr>"

text \<open>The same application with no particle yet and one seeded particle in the ring buffer.\<close>

definition example_seeded :: StrangeAttractors where
  "example_seeded =
     example_app\<lparr>particleVertices :=
       \<lparr>tb_slots = (\<lambda>i. \<lparr>particleList = [], timeList = []\<rparr>),
        tb_write = Slot0, tb_posted = Slot1, tb_read = Slot2, tb_fresh = True\<rparr>\<rparr>"


text \<open>
  The application as constructed at time 0, with 100 copies of one particle, all of them
  expiring at time 10.
\<close>

definition example_initial :: StrangeAttractors where
  "example_initial = StrangeAttractors_new (\<lambda>i. pv_a) (constant_clock 0) pv_b"

section \<open>Floating-point rounding\<close>

lemma pow2_powi: "pow2 e = 2 powi e"
  by (simp add: pow2_def power_int_def inverse_eq_divide power_one_over)

lemma pow2_mono: "a \<le> b \<Longrightarrow> pow2 a \<le> pow2 b"
  by (simp add: pow2_powi power_int_increasing)

lemma pow2_less: "a < b \<Longrightarrow> pow2 a < pow2 b"
  by (simp add: pow2_powi power_int_strict_increasing)

lemma pow2_pos: "0 < pow2 e"
  by (simp add: pow2_powi)

lemma pow2_add: "pow2 (a + b) = pow2 a * pow2 b"
  by (simp add: pow2_powi power_int_add)

lemma pow2_nat: "pow2 (int n) = 2 ^ n"
  by (simp add: pow2_def)

lemma binade_from_eq:
  "e0 \<le> e \<Longrightarrow> e \<le> e0 + int n \<Longrightarrow> e = e0 + int n \<or> x < pow2 (e + 1) \<Longrightarrow>
   e = e0 \<or> pow2 e \<le> x \<Longrightarrow> binade_from n e0 x = e"
proof (induction n arbitrary: e0)
  case 0
  then show ?case by simp
next
  case (Suc n)
  show ?case
  proof (cases "e = e0")
    case True
    then have "x < pow2 (e0 + 1)" using Suc.prems(3) by simp
    then show ?thesis using True by simp
  next
    case False
    then have lt: "e0 + 1 \<le> e" using Suc.prems(1) by simp
    have "pow2 e \<le> x" using Suc.prems(4) False by simp
    then have ge: "pow2 (e0 + 1) \<le> x" using pow2_mono [OF lt] by simp
    have "binade_from n (e0 + 1) x = e"
    proof (rule Suc.IH [OF lt])
      show "e \<le> e0 + 1 + int n" using Suc.prems(2) by simp
      show "e = e0 + 1 + int n \<or> x < pow2 (e + 1)" using Suc.prems(3) by auto
      show "e = e0 + 1 \<or> pow2 e \<le> x" using \<open>pow2 e \<le> x\<close> by simp
    qed
    then show ?thesis using ge by simp
  qed
qed

lemma round_to_eval:
  assumes "emin \<le> e" "e \<le> emax" "e = emax \<or> \<bar>x\<bar> < pow2 (e + 1)" "e = emin \<or> pow2 e \<le> \<bar>x\<bar>"
  shows "round_to p emin emax x =
     (let q = e - int p + 1;
          y = of_int (round_half_even (x / pow2 q)) * pow2 q
      in if pow2 (emax + 1) \<le> \<bar>y\<bar> then (if 0 < x then PInf else NInf) else Finite y)"
proof -
  have "binade emin emax x = e"
    unfolding binade_def using assms by (intro binade_from_eq) auto
  then show ?thesis by (simp add: round_to_def)
qed

lemma round_half_even_cases:
  "round_half_even r = \<lfloor>r\<rfloor> \<and> r - real_of_int \<lfloor>r\<rfloor> \<le> 1 / 2 \<or>
   round_half_even r = \<lfloor>r\<rfloor> + 1 \<and> 1 / 2 \<le> r - real_of_int \<lfloor>r\<rfloor>"
proof (cases "r - real_of_int \<lfloor>r\<rfloor> < 1 / 2")
  case True
  then have "round_half_even r = \<lfloor>r\<rfloor>" by (simp add: round_half_even_def Let_def)
  then show ?thesis using True by simp
next
  case False
  show ?thesis
  proof (cases "1 / 2 < r - real_of_int \<lfloor>r\<rfloor>")
    case True
    then have "round_half_even r = \<lfloor>r\<rfloor> + 1" using False by (simp add: round_half_even_def Let_def)
    then show ?thesis using True by simp
  next
    case F2: False
    then have h: "r - real_of_int \<lfloor>r\<rfloor> = 1 / 2" using False by simp
    have "round_half_even r = (if even \<lfloor>r\<rfloor> then \<lfloor>r\<rfloor> else \<lfloor>r\<rfloor> + 1)"
      using False F2 by (simp add: round_half_even_def Let_def)
    then show ?thesis using h by simp
  qed
qed

lemma round_half_even_bounds:
  "real_of_int (round_half_even r) \<le> r + 1 / 2" "r - 1 / 2 \<le> real_of_int (round_half_even r)"
proof -
  from round_half_even_cases [of r]
  show "real_of_int (round_half_even r) \<le> r + 1 / 2"
  proof (elim disjE conjE)
    assume "round_half_even r = \<lfloor>r\<rfloor>"
    then show ?thesis by linarith
  next
    assume "round_half_even r = \<lfloor>r\<rfloor> + 1" "1 / 2 \<le> r - real_of_int \<lfloor>r\<rfloor>"
    then show ?thesis by linarith
  qed
  from round_half_even_cases [of r]
  show "r - 1 / 2 \<le> real_of_int (round_half_even r)"
  proof (elim disjE conjE)
    assume "round_half_even r = \<lfloor>r\<rfloor>" "r - real_of_int \<lfloor>r\<rfloor> \<le> 1 / 2"
    then show ?thesis by linarith
  next
    assume "round_half_even r = \<lfloor>r\<rfloor> + 1"
    then show ?thesis by linarith
  qed
qed

lemma round_half_even_abs_le:
  assumes "\<bar>r\<bar> \<le> real_of_int n"
  shows "\<bar>round_half_even r\<bar> \<le> n"
proof -
  have "real_of_int (round_half_even r) \<le> real_of_int n + 1 / 2"
    using round_half_even_bounds(1) [of r] assms by linarith
  then have "real_of_int (round_half_even r) < real_of_int (n + 1)" by simp
  then have up: "round_half_even r \<le> n" by linarith
  have "- real_of_int n - 1 / 2 \<le> real_of_int (round_half_even r)"
    using round_half_even_bounds(2) [of r] assms by linarith
  then have "real_of_int (- n - 1) < real_of_int (round_half_even r)" by simp
  then have "- n \<le> round_half_even r" by linarith
  with up show ?thesis by linarith
qed

lemma round_to_finite:
  assumes "emin \<le> e" "e < emax" "\<bar>x\<bar> < pow2 (e + 1)" "e = emin \<or> pow2 e \<le> \<bar>x\<bar>"
  shows "round_to p emin emax x =
     Finite (of_int (round_half_even (x / pow2 (e - int p + 1))) * pow2 (e - int p + 1))"
proof -
  let ?q = "e - int p + 1"
  let ?m = "round_half_even (x / pow2 ?q)"
  have e: "pow2 (e + 1) = pow2 ?q * 2 ^ p"
    using pow2_add [of ?q "int p"] by (simp add: pow2_nat)
  have "\<bar>x / pow2 ?q\<bar> = \<bar>x\<bar> / pow2 ?q" using pow2_pos [of ?q] by simp
  also have "\<dots> \<le> 2 ^ p"
  proof -
    have "\<bar>x\<bar> < 2 ^ p * pow2 ?q" using assms(3) unfolding e by (simp add: mult.commute)
    then have "\<bar>x\<bar> / pow2 ?q < 2 ^ p" using pow2_pos [of ?q] by (simp add: pos_divide_less_eq)
    then show ?thesis by simp
  qed
  finally have "\<bar>x / pow2 ?q\<bar> \<le> real_of_int (2 ^ p)" by simp
  then have "\<bar>?m\<bar> \<le> 2 ^ p" by (rule round_half_even_abs_le)
  then have "real_of_int \<bar>?m\<bar> \<le> real_of_int (2 ^ p)" by (simp only: of_int_le_iff)
  then have "\<bar>real_of_int ?m\<bar> \<le> 2 ^ p" by simp
  then have "\<bar>real_of_int ?m * pow2 ?q\<bar> \<le> 2 ^ p * pow2 ?q"
    using pow2_pos [of ?q] by (simp add: abs_mult)
  also have "\<dots> = pow2 (e + 1)" by (simp add: e)
  also have "\<dots> \<le> pow2 emax" using assms(2) by (intro pow2_mono) simp
  also have "\<dots> < pow2 (emax + 1)" by (intro pow2_less) simp
  finally have no: "\<not> pow2 (emax + 1) \<le> \<bar>real_of_int ?m * pow2 ?q\<bar>" by simp
  have "e = emax \<or> \<bar>x\<bar> < pow2 (e + 1)" using assms(3) by simp
  from round_to_eval [OF assms(1) _ this assms(4), of p] assms(2) no
  show ?thesis by (simp add: Let_def)
qed


text \<open>
  Rounding evaluated: once the exponent \<open>e\<close> of \<open>x\<close> is given, the rounded value is a
  closed expression.
\<close>

lemmas round_float_eval = round_to_eval [of "- 126" _ 127 _ 24, folded round_float_def]

lemmas round_float_finite = round_to_finite [of "- 126" _ 127 _ 24, folded round_float_def]

lemmas round_double_finite = round_to_finite [of "- 1022" _ 1023 _ 53, folded round_double_def]

lemmas round_float_at =
  round_float_finite [where e = "- 126"] round_float_finite [where e = "- 9"]
  round_float_finite [where e = "- 8"] round_float_finite [where e = "- 4"]
  round_float_finite [where e = "- 1"] round_float_finite [where e = 0]
  round_float_finite [where e = 1] round_float_finite [where e = 3]
  round_float_finite [where e = 4]

lemma ieee_add_commute: "ieee_add R a b = ieee_add R b a"
  by (cases a; cases b) (simp_all add: add.commute)

lemma ieee_mul_commute: "ieee_mul R a b = ieee_mul R b a"
  by (cases a; cases b) (simp_all add: mult.commute)

lemma float_mul_commute: "float_mul a b = float_mul b a"
  unfolding float_mul_def by (rule ieee_mul_commute)

lemma float_literal_2667: "float_literal 2.667 = Finite (11186209 / 4194304)"
  by (simp add: float_literal_def float_of_double_def round_double_finite [where e = 1]
      round_float_finite [where e = 1] pow2_def round_half_even_def)

lemma float_literal_0003: "float_literal 0.003 = Finite (6442451 / 2147483648)"
  by (simp add: float_literal_def float_of_double_def round_double_finite [where e = "- 9"]
      round_float_finite [where e = "- 9"] pow2_def round_half_even_def)

lemma expiry_time_0_10: "expiry_time 0 (Finite 10) = Finite 10"
  by (simp add: expiry_time_def float_of_double_def double_add_def
      round_double_finite [where e = 3] round_float_finite [where e = 3] pow2_def
      round_half_even_def)

lemma expiry_time_5_10: "expiry_time 5 (Finite 10) = Finite 15"
  by (simp add: expiry_time_def float_of_double_def double_add_def
      round_double_finite [where e = 3] round_float_finite [where e = 3] pow2_def
      round_half_even_def)

lemma expiry_time_tiny_10: "expiry_time (1 / 4194304) (Finite 10) = Finite 10"
  by (simp add: expiry_time_def float_of_double_def double_add_def
      round_double_finite [where e = 3] round_float_finite [where e = 3] pow2_def
      round_half_even_def)

lemma lorenz_dot_111:
  "lorenz_dot (Finite 1, Finite 1, Finite 1) =
     (Finite 0, Finite 26, Finite (- (6991905 / 4194304)))"
  unfolding lorenz_dot_def float_literal_2667
  by (simp add: float_add_def float_sub_def float_mul_def ieee_sub_def round_float_at pow2_def
      round_half_even_def)

section \<open>Facts about one particle\<close>

lemma sub_tenth_eq: "sub_tenth c = (if c = 0 then 0 else c - 1)"
proof (cases "c = 0")
  case True
  have "\<lceil>- (1 / 10) :: real\<rceil> = 0" by (simp add: ceiling_eq_iff)
  then show ?thesis using True by (simp add: sub_tenth_def truncate_toward_zero_def)
next
  case False
  then have pos: "1 \<le> uint c" by (simp add: word_neq_0_conv word_less_def)
  then have "(1::real) \<le> real_of_int (uint c)" by linarith
  then have nonneg: "0 \<le> real_of_int (uint c) - 1 / 10" by linarith
  have fl: "\<lfloor>real_of_int (uint c) - 1 / 10\<rfloor> = uint c - 1"
    by (simp add: floor_eq_iff)
  have "sub_tenth c = word_of_int (uint c - 1)"
    using nonneg fl by (simp add: sub_tenth_def truncate_toward_zero_def)
  also have "\<dots> = c - 1" by simp
  finally show ?thesis using False by simp
qed

lemma integrate_fade_of: "fade_of pv (integrate pv)"
proof -
  have le: "unat (c - 1) \<le> unat c" if "c \<noteq> 0" for c :: GLubyte
    using that by (simp add: unat_minus_one)
  show ?thesis
    by (auto simp: fade_of_def integrate_def update_color_def sub_tenth_eq Let_def word_gt_0 le)
qed

lemma position_update_color: "position (update_color pv) = position pv"
  by (simp add: update_color_def)

lemma step_float_euler_step:
  "vec_add p (vec_scale (lorenz_dot p) (float_literal 0.003)) =
     float_euler_step (Finite 10) (Finite 28) (float_literal 2.667) (float_literal 0.003) p"
proof -
  obtain x y z where p: "p = (x, y, z)" by (cases p) auto
  show ?thesis
    unfolding p lorenz_dot_def Let_def float_euler_step_def prod.case vec_scale.simps
      vec_add.simps
    by (simp only: float_mul_commute [of _ "float_literal 0.003"])
qed

lemma position_integrate:
  "position (integrate pv) =
     float_euler_step (Finite 10) (Finite 28) (float_literal 2.667) (float_literal 0.003)
       (position pv)"
  unfolding step_float_euler_step [symmetric]
  by (simp add: integrate_def Let_def position_update_color)

lemma position_integrate_Array:
  "position (integrate_Array pv) =
     float_euler_step (Finite 10) (Finite 28) (float_literal 2.667) (float_literal 0.003)
       (position pv)"
  unfolding step_float_euler_step [symmetric]
  by (simp add: integrate_Array_def Let_def)

lemma position_integrate_111:
  "position pv = (Finite 1, Finite 1, Finite 1) \<Longrightarrow>
   position (integrate pv) =
     (Finite 1, Finite (9042919 / 8388608), Finite (16693313 / 16777216))"
  unfolding position_integrate float_euler_step_def float_literal_2667 float_literal_0003
  by (simp add: float_add_def float_sub_def float_mul_def ieee_sub_def round_float_at pow2_def
      round_half_even_def)

section \<open>The \<open>for\<close> loops\<close>

lemma carried_Nil: "carried clk k [] = []"
  by (simp add: carried_def)

lemma carried_Cons:
  "carried clk k ((pv, tp) # ps) =
     (if ieee_greater tp (Finite (clk k)) then (pv, tp) # carried clk (Suc k) ps
      else carried clk (Suc k) ps)"
  by (simp add: carried_def)

lemma updateMesh_for_eq:
  "length opl = length otl \<Longrightarrow>
   updateMesh_for clk k opl otl this =
     Some (k + length opl,
           this\<lparr>particleList := particleList this @ map (integrate \<circ> fst) (carried clk k (zip opl otl)),
                timeList := timeList this @ map snd (carried clk k (zip opl otl))\<rparr>)"
proof (induction opl arbitrary: otl k this)
  case Nil
  then show ?case by (simp add: carried_Nil)
next
  case (Cons pv opl)
  then obtain tp otl' where otl: "otl = tp # otl'" and len: "length opl = length otl'"
    by (cases otl) auto
  show ?case using Cons.IH [OF len] by (simp add: otl carried_Cons)
qed

lemma carried_nth:
  assumes "length opl = length otl"
  shows "carried clk 0 (zip opl otl) =
     map (\<lambda>i. (opl ! i, otl ! i))
       (filter (\<lambda>i. ieee_greater (otl ! i) (Finite (clk i))) [0..<length opl])"
proof -
  let ?ps = "zip opl otl"
  have e: "enumerate 0 ?ps = map (\<lambda>i. (i, ?ps ! i)) [0..<length ?ps]"
    by (rule nth_equalityI) (simp_all add: nth_enumerate_eq)
  have "carried clk 0 ?ps =
      map (\<lambda>i. ?ps ! i)
        (filter (\<lambda>i. ieee_greater (snd (?ps ! i)) (Finite (clk i))) [0..<length ?ps])"
    unfolding carried_def e by (simp add: filter_map comp_def case_prod_beta)
  also have "\<dots> = map (\<lambda>i. (opl ! i, otl ! i))
      (filter (\<lambda>i. ieee_greater (otl ! i) (Finite (clk i))) [0..<length opl])"
    using assms by (auto intro!: map_cong filter_cong)
  finally show ?thesis .
qed

lemma carried_subseq: "subseq (carried clk k ps) ps"
proof -
  have "subseq (map snd (filter (\<lambda>(i, pv, tp). ieee_greater tp (Finite (clk i))) (enumerate k ps)))
          (map snd (enumerate k ps))"
    by (rule subseq_map) simp
  then show ?thesis by (simp add: carried_def)
qed

lemma carried_all_expired:
  "(\<And>p. p \<in> set ps \<Longrightarrow> \<not> ieee_greater (snd p) (Finite now)) \<Longrightarrow>
   carried (constant_clock now) k ps = []"
proof (induction ps arbitrary: k)
  case Nil
  show ?case by (simp add: carried_Nil)
next
  case (Cons p ps)
  have "\<not> ieee_greater (snd p) (Finite now)" using Cons.prems [of p] by simp
  moreover have "carried (constant_clock now) (Suc k) ps = []"
    using Cons.IH [of "Suc k"] Cons.prems by simp
  ultimately show ?case
    by (cases p) (simp add: carried_Cons constant_clock_def)
qed

lemma Animation_updateMesh_for_eq:
  "Animation_updateMesh_for opl pl = pl @ map integrate_Array opl"
  by (induction opl arbitrary: pl) simp_all

lemma Animation_updateMesh_eq: "Animation_updateMesh opl = map integrate_Array opl"
  by (simp add: Animation_updateMesh_def Animation_updateMesh_for_eq)

section \<open>The ring buffer\<close>

lemma mod_index_distinct:
  fixes h :: nat
  assumes "i < c" "c < n"
  shows "(h + i) mod n \<noteq> (h + c) mod n"
proof
  assume eq: "(h + i) mod n = (h + c) mod n"
  have "h + i \<le> h + c" using assms by simp
  moreover have "(h + c) mod n = (h + i) mod n" using eq by simp
  ultimately have "n dvd (h + c) - (h + i)"
    by (simp only: mod_eq_dvd_iff_nat)
  then have "n dvd c - i" by simp
  moreover have "0 < c - i" "c - i < n" using assms by simp_all
  ultimately show False by (simp add: nat_dvd_not_less)
qed

lemma RingBuffer_inv_new: "0 < n \<Longrightarrow> RingBuffer_inv (RingBuffer_new n d)"
  by (simp add: RingBuffer_inv_def RingBuffer_new_def)

lemma RingBuffer_contents_new: "RingBuffer_contents (RingBuffer_new n d) = []"
  by (simp add: RingBuffer_contents_def RingBuffer_new_def)

lemma RingBuffer_length_contents: "length (RingBuffer_contents q) = rb_count q"
  by (simp add: RingBuffer_contents_def)

lemma RingBuffer_empty_contents: "RingBuffer_empty q \<longleftrightarrow> RingBuffer_contents q = []"
  by (simp add: RingBuffer_contents_def RingBuffer_empty_def)

lemma RingBuffer_push_Some:
  "rb_count q < rb_capacity q \<Longrightarrow> \<exists>q'. RingBuffer_push x q = Some q'"
  by (simp add: RingBuffer_push_def)

lemma RingBuffer_push_count:
  "RingBuffer_push x q = Some q' \<Longrightarrow> rb_count q' = rb_count q + 1 \<and> rb_capacity q' = rb_capacity q"
  by (auto simp: RingBuffer_push_def split: if_splits)

lemma RingBuffer_push_inv:
  assumes "RingBuffer_inv q" "RingBuffer_push x q = Some q'"
  shows "RingBuffer_inv q'"
  using assms
  by (auto simp: RingBuffer_inv_def RingBuffer_push_def mod_simps split: if_splits)

lemma RingBuffer_push_contents:
  assumes "RingBuffer_inv q" "RingBuffer_push x q = Some q'"
  shows "RingBuffer_contents q' = RingBuffer_contents q @ [x]"
proof -
  let ?n = "rb_capacity q" and ?h = "rb_head q" and ?c = "rb_count q"
  from assms have lt: "?c < ?n" and q': "q' = q\<lparr>rb_entries := (rb_entries q)[rb_tail q := x],
                   rb_tail := (rb_tail q + 1) mod ?n, rb_count := ?c + 1\<rparr>"
    by (auto simp: RingBuffer_push_def split: if_splits)
  from assms(1) have len: "length (rb_entries q) = ?n" and tail: "rb_tail q = (?h + ?c) mod ?n"
    by (simp_all add: RingBuffer_inv_def)
  have old: "(rb_entries q)[rb_tail q := x] ! ((?h + i) mod ?n) = rb_entries q ! ((?h + i) mod ?n)"
    if "i < ?c" for i
    using mod_index_distinct [OF that lt, of ?h] by (simp add: tail)
  have new: "(rb_entries q)[rb_tail q := x] ! ((?h + ?c) mod ?n) = x"
    using lt by (simp add: tail len)
  show ?thesis
    by (simp add: q' RingBuffer_contents_def old new)
qed

lemma RingBuffer_write_inv:
  assumes "RingBuffer_inv q"
  shows "RingBuffer_inv (RingBuffer_write x q)"
proof (cases "RingBuffer_push x q")
  case None
  then show ?thesis using assms by (simp add: RingBuffer_write_def)
next
  case (Some q')
  then show ?thesis using RingBuffer_push_inv [OF assms Some] by (simp add: RingBuffer_write_def)
qed

lemma RingBuffer_read_inv:
  assumes "RingBuffer_inv q" "RingBuffer_read q = Some (x, q')"
  shows "RingBuffer_inv q'"
proof -
  let ?n = "rb_capacity q" and ?h = "rb_head q" and ?c = "rb_count q"
  from assms have pos: "?c \<noteq> 0"
    and q': "q' = q\<lparr>rb_head := (?h + 1) mod ?n, rb_count := ?c - 1\<rparr>"
    by (auto simp: RingBuffer_read_def split: if_splits)
  from assms(1) have inv: "length (rb_entries q) = ?n" "?h < ?n" "?c \<le> ?n"
    "rb_tail q = (?h + ?c) mod ?n"
    by (simp_all add: RingBuffer_inv_def)
  have "(?h + 1 + (?c - 1)) mod ?n = (?h + ?c) mod ?n" using pos by simp
  then have "((?h + 1) mod ?n + (?c - 1)) mod ?n = (?h + ?c) mod ?n"
    by (simp add: mod_simps)
  then show ?thesis using inv pos by (simp add: q' RingBuffer_inv_def)
qed

lemma RingBuffer_read_contents:
  assumes "RingBuffer_inv q" "RingBuffer_read q = Some (x, q')"
  shows "RingBuffer_contents q = x # RingBuffer_contents q'"
proof -
  let ?n = "rb_capacity q" and ?h = "rb_head q" and ?c = "rb_count q"
  from assms have pos: "?c \<noteq> 0" and x: "x = rb_entries q ! ?h"
    and q': "q' = q\<lparr>rb_head := (?h + 1) mod ?n, rb_count := ?c - 1\<rparr>"
    by (auto simp: RingBuffer_read_def split: if_splits)
  from assms(1) have h: "?h < ?n" by (simp add: RingBuffer_inv_def)
  have "[0..<?c] = 0 # map Suc [0..<?c - 1]"
    using pos by (metis One_nat_def Suc_pred' map_Suc_upt neq0_conv upt_conv_Cons)
  then have "RingBuffer_contents q =
      rb_entries q ! (?h mod ?n) # map (\<lambda>i. rb_entries q ! ((?h + Suc i) mod ?n)) [0..<?c - 1]"
    by (simp add: RingBuffer_contents_def comp_def)
  also have "\<dots> = x # RingBuffer_contents q'"
    using h by (simp add: x q' RingBuffer_contents_def mod_simps)
  finally show ?thesis .
qed

lemma RingBuffer_push_all_Cons:
  assumes "RingBuffer_inv q" "rb_count q < rb_capacity q"
  shows "\<exists>q1. RingBuffer_push x q = Some q1 \<and> RingBuffer_inv q1 \<and>
     RingBuffer_contents q1 = RingBuffer_contents q @ [x] \<and>
     rb_count q1 = Suc (rb_count q) \<and> rb_capacity q1 = rb_capacity q \<and>
     RingBuffer_push_all (x # xs) q = RingBuffer_push_all xs q1"
proof -
  obtain q1 where p: "RingBuffer_push x q = Some q1"
    using RingBuffer_push_Some [OF assms(2)] by blast
  show ?thesis
    using RingBuffer_push_inv [OF assms(1) p] RingBuffer_push_contents [OF assms(1) p]
      RingBuffer_push_count [OF p] by (simp add: p)
qed

lemma RingBuffer_push_all_contents:
  "RingBuffer_inv q \<Longrightarrow> rb_count q + length xs \<le> rb_capacity q \<Longrightarrow>
   \<exists>q'. RingBuffer_push_all xs q = Some q' \<and> RingBuffer_inv q' \<and>
     RingBuffer_contents q' = RingBuffer_contents q @ xs"
proof (induction xs arbitrary: q)
  case Nil
  show ?case using Nil.prems(1) by simp
next
  case (Cons x xs)
  from Cons.prems(2) have lt: "rb_count q < rb_capacity q" by simp
  from RingBuffer_push_all_Cons [OF Cons.prems(1) lt, of x xs]
  obtain q1 where i1: "RingBuffer_inv q1"
    and c1: "RingBuffer_contents q1 = RingBuffer_contents q @ [x]"
    and n1: "rb_count q1 = Suc (rb_count q)" "rb_capacity q1 = rb_capacity q"
    and p1: "RingBuffer_push_all (x # xs) q = RingBuffer_push_all xs q1"
    by blast
  have "rb_count q1 + length xs \<le> rb_capacity q1"
    using Cons.prems(2) by (simp add: n1)
  from Cons.IH [OF i1 this] show ?case
    unfolding p1 c1 by simp
qed

lemma RingBuffer_read_n_contents:
  assumes "RingBuffer_inv q"
  shows "\<exists>q'. RingBuffer_read_n (rb_count q) q = Some (RingBuffer_contents q, q') \<and>
     RingBuffer_empty q'"
  using assms
proof (induction n \<equiv> "rb_count q" arbitrary: q)
  case 0
  then show ?case by (simp add: RingBuffer_empty_def RingBuffer_contents_def)
next
  case (Suc n)
  from Suc.hyps(2) obtain x q1 where rd: "RingBuffer_read q = Some (x, q1)"
    by (auto simp: RingBuffer_read_def)
  have c1: "n = rb_count q1" using rd Suc.hyps(2)
    by (auto simp: RingBuffer_read_def split: if_splits)
  have i1: "RingBuffer_inv q1" using RingBuffer_read_inv [OF Suc.prems rd] .
  have cont: "RingBuffer_contents q = x # RingBuffer_contents q1"
    using RingBuffer_read_contents [OF Suc.prems rd] .
  from Suc.hyps(1) [OF c1 i1] obtain q' where
    "RingBuffer_read_n (rb_count q1) q1 = Some (RingBuffer_contents q1, q')" "RingBuffer_empty q'"
    by blast
  moreover have "rb_count q = Suc (rb_count q1)" using c1 Suc.hyps(2) by simp
  ultimately show ?case using rd cont by simp
qed

section \<open>The \<open>while\<close> loops\<close>

lemma updateMesh_while_eq:
  "RingBuffer_inv q \<Longrightarrow>
   \<exists>q'. updateMesh_while clk k td q this =
     (q', this\<lparr>particleList := particleList this @ RingBuffer_contents q,
                timeList := timeList this @ map (\<lambda>j. expiry_time (clk (k + j)) td) [0..<rb_count q]\<rparr>)
     \<and> RingBuffer_empty q' \<and> RingBuffer_inv q'"
proof (induction n \<equiv> "rb_count q" arbitrary: q k this)
  case 0
  then show ?case
    by (simp add: updateMesh_while.simps [of clk k td q this] RingBuffer_empty_def
        RingBuffer_contents_def)
next
  case (Suc n)
  then have ne: "\<not> RingBuffer_empty q" by (simp add: RingBuffer_empty_def)
  then obtain pv q1 where rd: "RingBuffer_read q = Some (pv, q1)"
    by (auto simp: RingBuffer_read_def RingBuffer_empty_def)
  have c1: "n = rb_count q1" using rd Suc.hyps(2)
    by (auto simp: RingBuffer_read_def split: if_splits)
  have inv1: "RingBuffer_inv q1" using RingBuffer_read_inv [OF Suc.prems rd] .
  have cont: "RingBuffer_contents q = pv # RingBuffer_contents q1"
    using RingBuffer_read_contents [OF Suc.prems rd] .
  let ?this1 = "this\<lparr>particleList := particleList this @ [pv],
                       timeList := timeList this @ [expiry_time (clk k) td]\<rparr>"
  from Suc.hyps(1) [OF c1 inv1, of "Suc k" ?this1]
  obtain q' where q': "updateMesh_while clk (Suc k) td q1 ?this1 =
     (q', ?this1\<lparr>particleList := particleList ?this1 @ RingBuffer_contents q1,
                timeList := timeList ?this1 @ map (\<lambda>j. expiry_time (clk (Suc k + j)) td) [0..<rb_count q1]\<rparr>)"
     and e: "RingBuffer_empty q'" and i: "RingBuffer_inv q'" by blast
  have times: "map (\<lambda>j. expiry_time (clk (k + j)) td) [0..<rb_count q] =
      expiry_time (clk k) td # map (\<lambda>j. expiry_time (clk (Suc k + j)) td) [0..<rb_count q1]"
  proof -
    have "[0..<rb_count q] = 0 # map Suc [0..<rb_count q1]"
      using Suc.hyps(2) c1 by (metis map_Suc_upt upt_conv_Cons zero_less_Suc)
    then show ?thesis by (simp add: comp_def)
  qed
  have "updateMesh_while clk k td q this = updateMesh_while clk (Suc k) td q1 ?this1"
    using ne rd by (simp add: updateMesh_while.simps [of clk k td q this])
  then show ?case using q' e i by (simp add: cont times)
qed

lemma InputP2_updateMesh_while_eq:
  "RingBuffer_inv q \<Longrightarrow>
   \<exists>q'. InputP2_updateMesh_while q pl = (q', pl @ RingBuffer_contents q) \<and> RingBuffer_empty q'"
proof (induction n \<equiv> "rb_count q" arbitrary: q pl)
  case 0
  then show ?case
    by (simp add: InputP2_updateMesh_while.simps [of q pl] RingBuffer_empty_def
        RingBuffer_contents_def)
next
  case (Suc n)
  from Suc.hyps(2) have ne: "\<not> RingBuffer_empty q" by (simp add: RingBuffer_empty_def)
  then obtain pv q1 where rd: "RingBuffer_read q = Some (pv, q1)"
    by (auto simp: RingBuffer_read_def RingBuffer_empty_def)
  have c1: "n = rb_count q1" using rd Suc.hyps(2)
    by (auto simp: RingBuffer_read_def split: if_splits)
  have inv1: "RingBuffer_inv q1" using RingBuffer_read_inv [OF Suc.prems rd] .
  have cont: "RingBuffer_contents q = pv # RingBuffer_contents q1"
    using RingBuffer_read_contents [OF Suc.prems rd] .
  from Suc.hyps(1) [OF c1 inv1, of "pl @ [pv]"]
  obtain q' where "InputP2_updateMesh_while q1 (pl @ [pv]) = (q', (pl @ [pv]) @ RingBuffer_contents q1)"
    and "RingBuffer_empty q'"
    by blast
  moreover have "InputP2_updateMesh_while q pl = InputP2_updateMesh_while q1 (pl @ [pv])"
    using ne rd by (simp add: InputP2_updateMesh_while.simps [of q pl])
  ultimately show ?case by (simp add: cont)
qed

lemma InputP2_updateMesh_eq:
  "RingBuffer_inv q \<Longrightarrow>
   \<exists>q'. InputP2_updateMesh opl q = (q', map integrate_Array opl @ RingBuffer_contents q) \<and>
     RingBuffer_empty q'"
  using InputP2_updateMesh_while_eq [of q "map integrate_Array opl"]
  by (simp add: InputP2_updateMesh_def Animation_updateMesh_for_eq)

section \<open>\<open>updateMesh\<close> on the store\<close>

lemma updateMesh_result:
  assumes "updateMesh_pre this st"
  shows "\<exists>st'. updateMesh clk this st = Some st' \<and>
     latest st' =
       \<lparr>particleList =
          map (integrate \<circ> fst) (carried clk 0 (zip (particleList (latest st)) (timeList (latest st))))
          @ RingBuffer_contents (inputParticles st),
        timeList =
          map snd (carried clk 0 (zip (particleList (latest st)) (timeList (latest st))))
          @ birth_times clk (length (particleList (latest st))) (timeDecay st)
              (length (RingBuffer_contents (inputParticles st)))\<rparr> \<and>
     RingBuffer_empty (inputParticles st') \<and> RingBuffer_inv (inputParticles st') \<and>
     oldParticleList st' = this \<and> oldTimeList st' = this \<and>
     timeDecay st' = timeDecay st \<and> vertexBuffer st' = vertexBuffer st \<and>
     tb_write (particleVertices st') = tb_write (particleVertices st) \<and>
     tb_posted (particleVertices st') = tb_posted (particleVertices st) \<and>
     tb_read (particleVertices st') = tb_read (particleVertices st) \<and>
     tb_fresh (particleVertices st') = tb_fresh (particleVertices st) \<and>
     (\<forall>i. i \<noteq> this \<longrightarrow> tb_slots (particleVertices st') i = tb_slots (particleVertices st) i)"
proof -
  let ?tb = "particleVertices st"
  let ?cleared = "(tb_slots ?tb)(this := \<lparr>particleList = [], timeList = []\<rparr>)"
  let ?opl = "particleList (latest st)" and ?otl = "timeList (latest st)"
  from assms have ne: "this \<noteq> oldParticleList st" "this \<noteq> oldTimeList st"
    and len: "length ?opl = length ?otl" and inv: "RingBuffer_inv (inputParticles st)"
    by (simp_all add: updateMesh_pre_def)
  have opl: "particleList (?cleared (oldParticleList st)) = ?opl"
    and otl: "timeList (?cleared (oldTimeList st)) = ?otl"
    using ne by (simp_all add: latest_def)
  let ?this1 = "\<lparr>particleList = map (integrate \<circ> fst) (carried clk 0 (zip ?opl ?otl)),
                timeList = map snd (carried clk 0 (zip ?opl ?otl))\<rparr>"
  have forl: "updateMesh_for clk 0 ?opl ?otl (?cleared this) = Some (length ?opl, ?this1)"
    using updateMesh_for_eq [OF len, of clk 0 "?cleared this"] by simp
  from updateMesh_while_eq [OF inv, of clk "length ?opl" "timeDecay st" ?this1]
  obtain q' where w: "updateMesh_while clk (length ?opl) (timeDecay st) (inputParticles st) ?this1 =
      (q', ?this1\<lparr>particleList := particleList ?this1 @ RingBuffer_contents (inputParticles st),
                timeList := timeList ?this1 @
                  map (\<lambda>j. expiry_time (clk (length ?opl + j)) (timeDecay st))
                    [0..<rb_count (inputParticles st)]\<rparr>)"
    and e: "RingBuffer_empty q'" and i: "RingBuffer_inv q'" by blast
  show ?thesis
    unfolding updateMesh_def Let_def opl otl forl
    using w e i by (simp add: latest_def birth_times_def RingBuffer_length_contents)
qed

section \<open>The thread, the seeding tool and \<open>frame\<close> on the reachable states\<close>

lemma app_inv_updateMesh_pre: "app_inv st \<Longrightarrow> updateMesh_pre (startNewValue (particleVertices st)) st"
  by (auto simp: app_inv_def updateMesh_pre_def startNewValue_def Let_def split: if_splits)

lemma iteration_result:
  assumes "app_inv st"
  shows "\<exists>st'. strangeAttractorsThreadMethod_iteration clk st = Some st' \<and> app_inv st' \<and>
     latest st' =
       \<lparr>particleList =
          map (integrate \<circ> fst) (carried clk 0 (zip (particleList (latest st)) (timeList (latest st))))
          @ RingBuffer_contents (inputParticles st),
        timeList =
          map snd (carried clk 0 (zip (particleList (latest st)) (timeList (latest st))))
          @ birth_times clk (length (particleList (latest st))) (timeDecay st)
              (length (RingBuffer_contents (inputParticles st)))\<rparr> \<and>
     posted st' = latest st' \<and> tb_fresh (particleVertices st') \<and>
     tb_posted (particleVertices st') = tb_write (particleVertices st) \<and>
     RingBuffer_empty (inputParticles st') \<and>
     timeDecay st' = timeDecay st \<and> vertexBuffer st' = vertexBuffer st \<and>
     tb_read (particleVertices st') = tb_read (particleVertices st) \<and>
     getLockedValue (particleVertices st') = getLockedValue (particleVertices st)"
proof -
  let ?w = "startNewValue (particleVertices st)"
  from updateMesh_result [OF app_inv_updateMesh_pre [OF assms], of clk]
  obtain st1 where u: "updateMesh clk ?w st = Some st1"
    and l: "latest st1 =
       \<lparr>particleList =
          map (integrate \<circ> fst) (carried clk 0 (zip (particleList (latest st)) (timeList (latest st))))
          @ RingBuffer_contents (inputParticles st),
        timeList =
          map snd (carried clk 0 (zip (particleList (latest st)) (timeList (latest st))))
          @ birth_times clk (length (particleList (latest st))) (timeDecay st)
              (length (RingBuffer_contents (inputParticles st)))\<rparr>"
    and q: "RingBuffer_empty (inputParticles st1)" "RingBuffer_inv (inputParticles st1)"
    and ptr: "oldParticleList st1 = ?w" "oldTimeList st1 = ?w"
    and same: "timeDecay st1 = timeDecay st" "vertexBuffer st1 = vertexBuffer st"
    and roles: "tb_write (particleVertices st1) = tb_write (particleVertices st)"
      "tb_posted (particleVertices st1) = tb_posted (particleVertices st)"
      "tb_read (particleVertices st1) = tb_read (particleVertices st)"
    and others: "\<forall>i. i \<noteq> ?w \<longrightarrow> tb_slots (particleVertices st1) i = tb_slots (particleVertices st) i"
    by blast
  let ?st' = "st1\<lparr>particleVertices := postNewValue (particleVertices st1)\<rparr>"
  have it: "strangeAttractorsThreadMethod_iteration clk st = Some ?st'"
    by (simp add: strangeAttractorsThreadMethod_iteration_def u)
  have dist: "distinct [tb_write (particleVertices st), tb_posted (particleVertices st),
      tb_read (particleVertices st)]"
    using assms by (simp add: app_inv_def Let_def)
  have l': "latest ?st' = latest st1"
    by (simp add: latest_def postNewValue_def)
  have len: "length (particleList (latest st1)) = length (timeList (latest st1))"
    by (simp add: l carried_def birth_times_def)
  have app_inv': "app_inv ?st'"
    using dist q(2) ptr roles len l'
    by (simp add: app_inv_def Let_def postNewValue_def startNewValue_def) auto
  have p: "posted ?st' = latest ?st'"
    using ptr roles by (simp add: posted_def latest_def postNewValue_def startNewValue_def)
  have rd: "getLockedValue (particleVertices ?st') = getLockedValue (particleVertices st)"
  proof -
    have "tb_read (particleVertices st) \<noteq> ?w" using dist by (auto simp: startNewValue_def)
    then show ?thesis using roles others by (simp add: getLockedValue_def postNewValue_def)
  qed
  show ?thesis
    using it app_inv' l l' p q(1) same roles rd
    by (simp add: postNewValue_def startNewValue_def)
qed

lemma iteration_next_snapshot:
  assumes "app_inv st"
  shows "\<exists>st'. strangeAttractorsThreadMethod_iteration clk st = Some st' \<and> app_inv st' \<and>
     latest st' = next_snapshot clk (timeDecay st) (latest st) (RingBuffer_contents (inputParticles st)) \<and>
     posted st' = latest st' \<and> tb_fresh (particleVertices st') \<and>
     tb_posted (particleVertices st') = tb_write (particleVertices st) \<and>
     oldParticleList st' = tb_posted (particleVertices st') \<and>
     RingBuffer_empty (inputParticles st') \<and>
     timeDecay st' = timeDecay st \<and> vertexBuffer st' = vertexBuffer st \<and>
     tb_read (particleVertices st') = tb_read (particleVertices st) \<and>
     getLockedValue (particleVertices st') = getLockedValue (particleVertices st)"
proof -
  from iteration_result [OF assms, of clk]
  obtain st' where s: "strangeAttractorsThreadMethod_iteration clk st = Some st'"
    and w: "app_inv st'"
    and r: "latest st' =
       \<lparr>particleList =
          map (integrate \<circ> fst) (carried clk 0 (zip (particleList (latest st)) (timeList (latest st))))
          @ RingBuffer_contents (inputParticles st),
        timeList =
          map snd (carried clk 0 (zip (particleList (latest st)) (timeList (latest st))))
          @ birth_times clk (length (particleList (latest st))) (timeDecay st)
              (length (RingBuffer_contents (inputParticles st)))\<rparr>"
     "posted st' = latest st'" "tb_fresh (particleVertices st')"
     "tb_posted (particleVertices st') = tb_write (particleVertices st)"
     "RingBuffer_empty (inputParticles st')"
     "timeDecay st' = timeDecay st" "vertexBuffer st' = vertexBuffer st"
     "tb_read (particleVertices st') = tb_read (particleVertices st)"
     "getLockedValue (particleVertices st') = getLockedValue (particleVertices st)"
    by blast
  have "oldParticleList st' = tb_posted (particleVertices st')"
    using w r(3) by (simp add: app_inv_def Let_def)
  then show ?thesis using s w r by (simp add: next_snapshot_def)
qed

lemma Seed_frame:
  "particleVertices (SeedParticlesTool_frame b pv st) = particleVertices st \<and>
   vertexBuffer (SeedParticlesTool_frame b pv st) = vertexBuffer st \<and>
   oldParticleList (SeedParticlesTool_frame b pv st) = oldParticleList st \<and>
   oldTimeList (SeedParticlesTool_frame b pv st) = oldTimeList st \<and>
   timeDecay (SeedParticlesTool_frame b pv st) = timeDecay st"
  by (simp add: SeedParticlesTool_frame_def)

lemma app_inv_Seed:
  assumes "app_inv st"
  shows "app_inv (SeedParticlesTool_frame b pv st)"
proof -
  have inv: "RingBuffer_inv (inputParticles (SeedParticlesTool_frame b pv st))"
    using assms RingBuffer_write_inv [of "inputParticles st" pv]
    by (simp add: SeedParticlesTool_frame_def app_inv_def Let_def)
  have l: "latest (SeedParticlesTool_frame b pv st) = latest st"
    by (simp add: latest_def Seed_frame)
  show ?thesis
    using assms unfolding app_inv_def Let_def l
    by (simp add: Seed_frame inv)
qed

lemma frame_fresh:
  assumes "tb_fresh (particleVertices st)"
  shows "frame st =
     st\<lparr>particleVertices := (particleVertices st)\<lparr>tb_read := tb_posted (particleVertices st),
            tb_posted := tb_read (particleVertices st), tb_fresh := False\<rparr>,
         vertexBuffer := Some (length (particleList (posted st)), tb_posted (particleVertices st))\<rparr>"
  using assms by (simp add: frame_def lockNewValue_def getLockedValue_def posted_def)

lemma frame_stale: "\<not> tb_fresh (particleVertices st) \<Longrightarrow> frame st = st"
  by (simp add: frame_def lockNewValue_def)

lemma app_inv_frame:
  assumes "app_inv st"
  shows "app_inv (frame st)"
proof (cases "tb_fresh (particleVertices st)")
  case True
  have "latest (frame st) = latest st"
    by (simp add: frame_fresh [OF True] latest_def)
  then show ?thesis
    using assms True unfolding app_inv_def Let_def
    by (simp add: frame_fresh [OF True]) auto
next
  case False
  then show ?thesis using assms by (simp add: frame_stale)
qed

lemma frame_not_fresh: "\<not> tb_fresh (particleVertices (frame st))"
  by (cases "tb_fresh (particleVertices st)") (simp_all add: frame_fresh frame_stale)

lemma app_inv_new: "app_inv (StrangeAttractors_new rnd clk d)"
  by (simp add: app_inv_def StrangeAttractors_new_def Let_def TripleBuffer_new_def startNewValue_def
      postNewValue_def latest_def RingBuffer_inv_new)

lemma run_result:
  "app_inv st \<Longrightarrow>
   \<exists>st'. run evs st = Some st' \<and> app_inv st' \<and>
     (tb_fresh (particleVertices st') \<longleftrightarrow> tb_fresh (particleVertices st) \<or> list_ex is_Tick evs) \<and>
     vertexBuffer st' = vertexBuffer st \<and>
     tb_read (particleVertices st') = tb_read (particleVertices st) \<and>
     getLockedValue (particleVertices st') = getLockedValue (particleVertices st) \<and>
     (if list_ex is_Tick evs
      then posted st' = latest st' \<and> oldParticleList st' = tb_posted (particleVertices st')
      else particleVertices st' = particleVertices st \<and> oldParticleList st' = oldParticleList st \<and>
           oldTimeList st' = oldTimeList st)"
proof (induction evs arbitrary: st)
  case Nil
  show ?case using Nil.prems by simp
next
  case (Cons ev evs)
  show ?case
  proof (cases ev)
    case (Tick clk)
    from iteration_next_snapshot [OF Cons.prems, of clk]
    obtain st1 where s: "strangeAttractorsThreadMethod_iteration clk st = Some st1"
      and w: "app_inv st1"
      and r: "posted st1 = latest st1" "tb_fresh (particleVertices st1)"
        "oldParticleList st1 = tb_posted (particleVertices st1)"
        "vertexBuffer st1 = vertexBuffer st"
        "tb_read (particleVertices st1) = tb_read (particleVertices st)"
        "getLockedValue (particleVertices st1) = getLockedValue (particleVertices st)"
      by blast
    from Cons.IH [OF w]
    obtain st' where s': "run evs st1 = Some st'" and w': "app_inv st'"
      and f: "tb_fresh (particleVertices st') \<longleftrightarrow> tb_fresh (particleVertices st1) \<or> list_ex is_Tick evs"
      and k: "vertexBuffer st' = vertexBuffer st1"
        "tb_read (particleVertices st') = tb_read (particleVertices st1)"
        "getLockedValue (particleVertices st') = getLockedValue (particleVertices st1)"
      and c: "if list_ex is_Tick evs
        then posted st' = latest st' \<and> oldParticleList st' = tb_posted (particleVertices st')
        else particleVertices st' = particleVertices st1 \<and> oldParticleList st' = oldParticleList st1 \<and>
           oldTimeList st' = oldTimeList st1"
      by blast
    have p: "posted st' = latest st' \<and> oldParticleList st' = tb_posted (particleVertices st')"
    proof (cases "list_ex is_Tick evs")
      case True
      then show ?thesis using c by simp
    next
      case False
      then have "particleVertices st' = particleVertices st1" "oldParticleList st' = oldParticleList st1"
        "oldTimeList st' = oldTimeList st1"
        using c by simp_all
      then show ?thesis using r(1,3) by (simp add: posted_def latest_def)
    qed
    show ?thesis
      using s s' w' f k p r by (simp add: Tick)
  next
    case (Seed pv)
    have w: "app_inv (SeedParticlesTool_frame True pv st)" using app_inv_Seed [OF Cons.prems] .
    from Cons.IH [OF w]
    obtain st' where "run evs (SeedParticlesTool_frame True pv st) = Some st'" "app_inv st'"
      "tb_fresh (particleVertices st') \<longleftrightarrow> tb_fresh (particleVertices st) \<or> list_ex is_Tick evs"
      "vertexBuffer st' = vertexBuffer st"
      "tb_read (particleVertices st') = tb_read (particleVertices st)"
      "getLockedValue (particleVertices st') = getLockedValue (particleVertices st)"
      "if list_ex is_Tick evs
        then posted st' = latest st' \<and> oldParticleList st' = tb_posted (particleVertices st')
        else particleVertices st' = particleVertices st \<and> oldParticleList st' = oldParticleList st \<and>
           oldTimeList st' = oldTimeList st"
      unfolding Seed_frame [THEN conjunct1] Seed_frame [THEN conjunct2, THEN conjunct1]
        Seed_frame [THEN conjunct2, THEN conjunct2, THEN conjunct1]
        Seed_frame [THEN conjunct2, THEN conjunct2, THEN conjunct2, THEN conjunct1]
      by blast
    then show ?thesis
      by (simp add: Seed)
  qed
qed

section \<open>The life of one seeded particle\<close>






section \<open>Ticks that read the time once\<close>





section \<open>The example states\<close>

lemma example_latest:
  "latest example_app = \<lparr>particleList = [pv_a, pv_b], timeList = [Finite 9, Finite 3]\<rparr>"
  by (simp add: example_app_def latest_def)

lemma example_queue:
  "RingBuffer_inv (inputParticles example_app)"
  "RingBuffer_contents (inputParticles example_app) = [pv_c]"
  "timeDecay example_app = Finite 10"
  by (simp_all add: example_app_def RingBuffer_write_def RingBuffer_push_def RingBuffer_new_def
      RingBuffer_inv_def RingBuffer_contents_def)

lemma example_pre: "updateMesh_pre Slot0 example_app"
  by (simp add: updateMesh_pre_def example_latest example_queue) (simp add: example_app_def)

lemma example_app_inv: "app_inv example_app"
  by (simp add: app_inv_def Let_def example_latest example_queue) (simp add: example_app_def)

lemma example_carried:
  "carried (constant_clock 5) 0 (zip [pv_a, pv_b] [Finite 9, Finite 3]) = [(pv_a, Finite 9)]"
  by (simp add: carried_Cons carried_Nil constant_clock_def)

lemma example_seeded_facts:
  "app_inv example_seeded"
  "latest example_seeded = \<lparr>particleList = [], timeList = []\<rparr>"
  "RingBuffer_contents (inputParticles example_seeded) = [pv_c]"
  "timeDecay example_seeded = Finite 10"
proof -
  have q: "inputParticles example_seeded = inputParticles example_app"
    and t: "timeDecay example_seeded = timeDecay example_app"
    by (simp_all add: example_seeded_def)
  show l: "latest example_seeded = \<lparr>particleList = [], timeList = []\<rparr>"
    by (simp add: example_seeded_def latest_def)
  show "app_inv example_seeded"
    unfolding app_inv_def Let_def l q by (simp add: example_queue) (simp add: example_seeded_def example_app_def)
  show "RingBuffer_contents (inputParticles example_seeded) = [pv_c]"
    by (simp add: q example_queue)
  show "timeDecay example_seeded = Finite 10" by (simp add: t example_queue)
qed

lemma example_initial_facts:
  "app_inv example_initial"
  "timeList (latest example_initial) = map (\<lambda>i. Finite 10) [0..<100]"
  "RingBuffer_contents (inputParticles example_initial) = []"
proof -
  show "app_inv example_initial" by (simp add: example_initial_def app_inv_new)
  show "timeList (latest example_initial) = map (\<lambda>i. Finite 10) [0..<100]"
    by (simp add: example_initial_def StrangeAttractors_new_def Let_def latest_def
        TripleBuffer_new_def startNewValue_def postNewValue_def constant_clock_def
        expiry_time_0_10)
  show "RingBuffer_contents (inputParticles example_initial) = []"
    by (simp add: example_initial_def StrangeAttractors_new_def Let_def RingBuffer_contents_new)
qed

lemma example_initial_first_tick:
  "\<exists>st1. strangeAttractorsThreadMethod_iteration (constant_clock 11) example_initial = Some st1 \<and>
     app_inv st1 \<and> latest st1 = \<lparr>particleList = [], timeList = []\<rparr> \<and>
     posted st1 = \<lparr>particleList = [], timeList = []\<rparr> \<and>
     RingBuffer_empty (inputParticles st1)"
proof -
  have "\<not> ieee_greater (snd p) (Finite 11)"
    if "p \<in> set (zip (particleList (latest example_initial)) (timeList (latest example_initial)))"
    for p
  proof -
    from that have "snd p \<in> set (timeList (latest example_initial))"
      by (metis prod.collapse set_zip_rightD)
    then show ?thesis by (auto simp: example_initial_facts(2))
  qed
  then have c: "carried (constant_clock 11) 0
      (zip (particleList (latest example_initial)) (timeList (latest example_initial))) = []"
    by (rule carried_all_expired)
  from iteration_next_snapshot [OF example_initial_facts(1), of "constant_clock 11"]
  show ?thesis
    by (auto simp: next_snapshot_def c example_initial_facts(3) birth_times_def)
qed


lemma example_seeded_pre: "updateMesh_pre Slot0 example_seeded"
  using app_inv_updateMesh_pre [OF example_seeded_facts(1)]
  by (simp add: startNewValue_def example_seeded_def)

lemma alive_indices_carried:
  assumes "length opl = length otl"
  shows "carried clk 0 (zip opl otl) = map (\<lambda>i. (opl ! i, otl ! i)) (alive_indices clk otl)"
  using carried_nth [OF assms, of clk] by (simp add: alive_indices_def assms)

lemma alive_indices_sorted: "sorted_wrt (<) (alive_indices clk otl)"
  unfolding alive_indices_def by (rule sorted_wrt_filter) (simp add: sorted_wrt_upt)

lemma alive_indices_set:
  "set (alive_indices clk otl) = {i. i < length otl \<and> ieee_greater (otl ! i) (Finite (clk i))}"
  by (auto simp: alive_indices_def)


section \<open>The claims\<close>

text \<open>
  The theorems below are about the sequential model above: one call of \<open>updateMesh\<close>, one
  iteration of the thread or one call of \<open>frame\<close> runs as a whole, and no seeding happens
  while a tick drains the ring buffer. Elapsed time and the cancellation of the thread
  (C8) are outside this model.
\<close>

text \<open>
  C1, as stated, fails: the source computes in \<open>float\<close>, and the step it takes is not the
  exact Euler step. At the position \<open>(1, 1, 1)\<close> the third derivative is
  \<open>-6991905/4194304\<close> (about \<open>-1.66700006\<close>), not \<open>-1.667\<close>, and the new position is
  \<open>(1, 9042919/8388608, 16693313/16777216)\<close> (about \<open>(1, 1.07799995, 0.99499899)\<close>), not
  the \<open>(1, 1.078, 0.994999)\<close> of the exact step. From
  \<open>(2^127, -2^127, 0)\<close>, two floats and zero, the source's step overflows to infinities,
  where the exact step is finite.
\<close>

theorem euler_step_not_exact:
  "lorenz_dot (Finite 1, Finite 1, Finite 1) =
     (Finite 0, Finite 26, Finite (- (6991905 / 4194304))) \<and>
   - (6991905 / 4194304) \<noteq> (- 1.667 :: real) \<and>
   position (integrate pv_a) =
     (Finite 1, Finite (9042919 / 8388608), Finite (16693313 / 16777216)) \<and>
   spec_euler_step 10 28 2.667 0.003 (1, 1, 1) = (1, 1.078, 0.994999) \<and>
   (1, 9042919 / 8388608, 16693313 / 16777216) \<noteq> spec_euler_step 10 28 2.667 0.003 (1, 1, 1) \<and>
   position (integrate (pv_a\<lparr>position := (Finite (2 ^ 127), Finite (- (2 ^ 127)), Finite 0)\<rparr>)) =
     (NInf, PInf, NInf)"
proof -
  have a: "position (integrate pv_a) =
     (Finite 1, Finite (9042919 / 8388608), Finite (16693313 / 16777216))"
    by (rule position_integrate_111) (simp add: pv_a_def)
  have b: "spec_euler_step 10 28 2.667 0.003 (1, 1, 1) = (1, 1.078, 0.994999)"
    by (simp add: spec_euler_step_def)
  have c: "position (integrate (pv_a\<lparr>position := (Finite (2 ^ 127), Finite (- (2 ^ 127)), Finite 0)\<rparr>)) =
     (NInf, PInf, NInf)"
    unfolding position_integrate float_euler_step_def float_literal_2667 float_literal_0003
    by (simp add: float_add_def float_sub_def float_mul_def ieee_sub_def
        round_float_eval [where e = 127] round_float_at pow2_def round_half_even_def)
  show ?thesis
    unfolding a b c lorenz_dot_111 by simp
qed

text \<open>
  C1, amended. Every particle that one tick carries over from the previous snapshot gets
  the position of one explicit Euler step of the Lorenz system computed in \<open>float\<close>:
  \<open>\<sigma> = 10\<close>, \<open>\<rho> = 28\<close>, \<open>\<beta>\<close> and \<open>\<Delta>t\<close> the floats nearest to \<open>2.667\<close> and \<open>0.003\<close>, and
  every sum, difference and product rounded to \<open>float\<close>; so does every particle in the
  variant without expiry. At the position \<open>(1, 1, 1)\<close> the derivatives are
  \<open>(0, 26, -6991905/4194304)\<close>, the third within \<open>0.0000001\<close> of \<open>-1.667\<close>, and the new
  position is \<open>(1.0, 1.078, 0.995)\<close> to within \<open>0.000002\<close>.
\<close>

theorem updateMesh_float_euler_step:
  assumes "updateMesh_pre thisParticleTimeList st"
  shows "\<exists>st'. updateMesh clk thisParticleTimeList st = Some st' \<and>
     map position
       (take (length (carried clk 0 (zip (particleList (latest st)) (timeList (latest st)))))
          (particleList (latest st'))) =
     map (float_euler_step (Finite 10) (Finite 28) (float_literal 2.667) (float_literal 0.003)
            \<circ> position \<circ> fst)
       (carried clk 0 (zip (particleList (latest st)) (timeList (latest st)))) \<and>
     map position (Animation_updateMesh opl) =
       map (float_euler_step (Finite 10) (Finite 28) (float_literal 2.667) (float_literal 0.003)
              \<circ> position) opl \<and>
     float_literal 2.667 = Finite (11186209 / 4194304) \<and>
     float_literal 0.003 = Finite (6442451 / 2147483648) \<and>
     lorenz_dot (Finite 1, Finite 1, Finite 1) =
       (Finite 0, Finite 26, Finite (- (6991905 / 4194304))) \<and>
     \<bar>- (6991905 / 4194304) - (- 1.667)\<bar> \<le> (0.0000001 :: real) \<and>
     position (integrate (pv\<lparr>position := (Finite 1, Finite 1, Finite 1)\<rparr>)) =
       (Finite 1, Finite (9042919 / 8388608), Finite (16693313 / 16777216)) \<and>
     \<bar>9042919 / 8388608 - 1.078\<bar> \<le> (0.000001 :: real) \<and>
     \<bar>16693313 / 16777216 - 0.995\<bar> \<le> (0.000002 :: real)"
proof -
  from updateMesh_result [OF assms, of clk]
  obtain st' where u: "updateMesh clk thisParticleTimeList st = Some st'"
    and l: "particleList (latest st') =
          map (integrate \<circ> fst) (carried clk 0 (zip (particleList (latest st)) (timeList (latest st))))
          @ RingBuffer_contents (inputParticles st)"
    by force
  have carriedp: "map position
       (take (length (carried clk 0 (zip (particleList (latest st)) (timeList (latest st)))))
          (particleList (latest st'))) =
     map (float_euler_step (Finite 10) (Finite 28) (float_literal 2.667) (float_literal 0.003)
            \<circ> position \<circ> fst)
       (carried clk 0 (zip (particleList (latest st)) (timeList (latest st))))"
    unfolding l by (simp add: position_integrate comp_def)
  have anim: "map position (Animation_updateMesh opl) =
       map (float_euler_step (Finite 10) (Finite 28) (float_literal 2.667) (float_literal 0.003)
              \<circ> position) opl"
    by (simp add: position_integrate_Array Animation_updateMesh_eq comp_def)
  have p: "position (integrate (pv\<lparr>position := (Finite 1, Finite 1, Finite 1)\<rparr>)) =
       (Finite 1, Finite (9042919 / 8388608), Finite (16693313 / 16777216))"
    by (rule position_integrate_111) simp
  have n: "\<bar>- (6991905 / 4194304) - (- 1.667)\<bar> \<le> (0.0000001 :: real)"
    "\<bar>9042919 / 8388608 - 1.078\<bar> \<le> (0.000001 :: real)"
    "\<bar>16693313 / 16777216 - 0.995\<bar> \<le> (0.000002 :: real)"
    by simp_all
  show ?thesis
    using u carriedp anim float_literal_2667 float_literal_0003 lorenz_dot_111 p n
    by (intro exI [of _ st'] conjI)
qed

theorem updateMesh_float_euler_step_witness:
  "updateMesh_pre Slot0 example_app \<and>
   (\<exists>st'. updateMesh (constant_clock 5) Slot0 example_app = Some st' \<and>
      map position (take 1 (particleList (latest st'))) =
        [(Finite 1, Finite (9042919 / 8388608), Finite (16693313 / 16777216))])"
proof -
  have v: "float_euler_step (Finite 10) (Finite 28) (float_literal 2.667) (float_literal 0.003)
      (position pv_a) = (Finite 1, Finite (9042919 / 8388608), Finite (16693313 / 16777216))"
    unfolding position_integrate [symmetric]
    by (rule position_integrate_111) (simp add: pv_a_def)
  from updateMesh_float_euler_step [OF example_pre, of "constant_clock 5" "[]" pv_a]
  obtain st' where "updateMesh (constant_clock 5) Slot0 example_app = Some st'"
    and "map position (take (length [(pv_a, Finite 9)]) (particleList (latest st'))) =
         map (float_euler_step (Finite 10) (Finite 28) (float_literal 2.667) (float_literal 0.003)
                \<circ> position \<circ> fst) [(pv_a, Finite 9)]"
    unfolding example_latest ParticleTimeList.simps example_carried by blast
  then show ?thesis
    using example_pre v by simp
qed



text \<open>
  C3, as stated, fails: a snapshot is a particle list and a time list and carries no
  generation counter. Once the 100 particles of the constructor have expired, the
  thread publishes the same (empty) snapshot at time 11 and again at time 12.
\<close>

theorem successive_snapshots_equal:
  "map_option posted (strangeAttractorsThreadMethod [constant_clock 11] example_initial) =
     Some \<lparr>particleList = [], timeList = []\<rparr> \<and>
   map_option posted
     (strangeAttractorsThreadMethod [constant_clock 11, constant_clock 12] example_initial) =
     Some \<lparr>particleList = [], timeList = []\<rparr>"
proof -
  from example_initial_first_tick
  obtain st1 where s1: "strangeAttractorsThreadMethod_iteration (constant_clock 11) example_initial = Some st1"
    and w: "app_inv st1" and l: "latest st1 = \<lparr>particleList = [], timeList = []\<rparr>"
    and p: "posted st1 = \<lparr>particleList = [], timeList = []\<rparr>"
    and e: "RingBuffer_empty (inputParticles st1)"
    by blast
  from iteration_next_snapshot [OF w, of "constant_clock 12"]
  obtain st2 where s2: "strangeAttractorsThreadMethod_iteration (constant_clock 12) st1 = Some st2"
    and "posted st2 =
      next_snapshot (constant_clock 12) (timeDecay st1) (latest st1)
        (RingBuffer_contents (inputParticles st1))"
    by auto
  then have "posted st2 = \<lparr>particleList = [], timeList = []\<rparr>"
    using e by (simp add: next_snapshot_def l carried_Nil birth_times_def RingBuffer_empty_contents)
  then show ?thesis using s1 s2 p by simp
qed

text \<open>
  C3, amended. A published snapshot carries no generation counter. Each iteration of the
  thread publishes one snapshot: the slot it wrote becomes the posted slot and is marked
  new for the consumer, and it holds the snapshot that one tick makes of the snapshot
  written before it (the particles carried over, integrated, then the seeded ones). The
  published states are ordered by the order of the iterations only.
\<close>

theorem publish_next_snapshot:
  assumes "app_inv st"
  shows "\<exists>st'. strangeAttractorsThreadMethod_iteration clk st = Some st' \<and> app_inv st' \<and>
     tb_fresh (particleVertices st') \<and>
     tb_posted (particleVertices st') = tb_write (particleVertices st) \<and>
     posted st' =
       next_snapshot clk (timeDecay st) (latest st) (RingBuffer_contents (inputParticles st)) \<and>
     latest st' = posted st'"
  using iteration_next_snapshot [OF assms, of clk] by auto

theorem publish_next_snapshot_witness:
  "app_inv example_app \<and>
   (\<exists>st'. strangeAttractorsThreadMethod_iteration (constant_clock 5) example_app = Some st' \<and>
      tb_fresh (particleVertices st') \<and> tb_posted (particleVertices st') = Slot0 \<and>
      posted st' = \<lparr>particleList = [integrate pv_a, pv_c], timeList = [Finite 9, Finite 15]\<rparr>)"
proof -
  have n: "next_snapshot (constant_clock 5) (timeDecay example_app) (latest example_app)
      (RingBuffer_contents (inputParticles example_app)) =
      \<lparr>particleList = [integrate pv_a, pv_c], timeList = [Finite 9, Finite 15]\<rparr>"
    unfolding next_snapshot_def example_latest ParticleTimeList.simps example_carried example_queue
    by (simp add: birth_times_def constant_clock_def expiry_time_5_10)
  have w: "tb_write (particleVertices example_app) = Slot0" by (simp add: example_app_def)
  from publish_next_snapshot [OF example_app_inv, of "constant_clock 5"]
  show ?thesis unfolding n w using example_app_inv by auto
qed

text \<open>
  C4. For every particle that one tick carries over, the colours of the new particle are
  those of the old one with the first channel that is still positive, in the order
  green, red, blue, decreased by one; a channel at 0 stays at 0 and none wraps around.
\<close>

theorem updateMesh_color_fade:
  assumes "updateMesh_pre thisParticleTimeList st"
  shows "\<exists>st'. updateMesh clk thisParticleTimeList st = Some st' \<and>
     list_all2 fade_of
       (map fst (carried clk 0 (zip (particleList (latest st)) (timeList (latest st)))))
       (take (length (carried clk 0 (zip (particleList (latest st)) (timeList (latest st)))))
          (particleList (latest st')))"
proof -
  from updateMesh_result [OF assms, of clk]
  obtain st' where "updateMesh clk thisParticleTimeList st = Some st'"
    and "particleList (latest st') =
          map (integrate \<circ> fst) (carried clk 0 (zip (particleList (latest st)) (timeList (latest st))))
          @ RingBuffer_contents (inputParticles st)"
    by force
  then show ?thesis
    by (simp add: list_all2_map1 list_all2_map2 list_all2_same integrate_fade_of)
qed

theorem updateMesh_color_fade_witness:
  "updateMesh_pre Slot0 example_app \<and>
   (\<exists>st'. updateMesh (constant_clock 5) Slot0 example_app = Some st' \<and>
      (\<exists>pv'. take 1 (particleList (latest st')) = [pv'] \<and>
         (color0 pv', color1 pv', color2 pv', color3 pv') = (89, 0, 40, 255)))"
proof -
  from updateMesh_color_fade [OF example_pre, of "constant_clock 5"]
  obtain st' where "updateMesh (constant_clock 5) Slot0 example_app = Some st'"
    and "list_all2 fade_of (map fst [(pv_a, Finite 9)])
           (take (length [(pv_a, Finite 9)]) (particleList (latest st')))"
    unfolding example_latest ParticleTimeList.simps example_carried by blast
  then show ?thesis
    using example_pre by (auto simp: list_all2_Cons1 fade_of_def pv_a_def)
qed



text \<open>
  C6, as stated, fails for the expiry time: the sum of the time read and \<open>timeDecay\<close> is
  stored in a \<open>std::vector<float>\<close>, so the expiry time is that sum rounded to \<open>float\<close>.
  A particle drained at time \<open>1/4194304\<close> with \<open>timeDecay = 10\<close> gets the expiry time
  \<open>10\<close>, not \<open>10 + 1/4194304\<close>.
\<close>

theorem expiry_time_rounded:
  "timeDecay example_seeded = Finite 10 \<and>
   RingBuffer_contents (inputParticles example_seeded) = [pv_c] \<and>
   map_option (timeList \<circ> latest)
     (updateMesh (constant_clock (1 / 4194304)) Slot0 example_seeded) = Some [Finite 10] \<and>
   Finite 10 \<noteq> Finite (1 / 4194304 + 10)"
proof -
  from updateMesh_result [OF example_seeded_pre, of "constant_clock (1 / 4194304)"]
  obtain st' where u: "updateMesh (constant_clock (1 / 4194304)) Slot0 example_seeded = Some st'"
    and l: "latest st' =
       \<lparr>particleList =
          map (integrate \<circ> fst)
            (carried (constant_clock (1 / 4194304)) 0
               (zip (particleList (latest example_seeded)) (timeList (latest example_seeded))))
          @ RingBuffer_contents (inputParticles example_seeded),
        timeList =
          map snd
            (carried (constant_clock (1 / 4194304)) 0
               (zip (particleList (latest example_seeded)) (timeList (latest example_seeded))))
          @ birth_times (constant_clock (1 / 4194304)) (length (particleList (latest example_seeded)))
              (timeDecay example_seeded)
              (length (RingBuffer_contents (inputParticles example_seeded)))\<rparr>"
    by blast
  have "timeList (latest st') = [Finite 10]"
    unfolding l example_seeded_facts
    by (simp add: carried_Nil birth_times_def constant_clock_def expiry_time_tiny_10)
  then show ?thesis
    using u by (simp add: example_seeded_facts)
qed

text \<open>
  C6, amended. One run of \<open>updateMesh\<close> appends, after the particles it carried over,
  every item of the ring buffer in queue order, gives the \<open>j\<close>-th of them as expiry time
  the float made of the time read for it plus \<open>timeDecay\<close> (the sum is computed as a
  \<open>double\<close> and converted to \<open>float\<close>), and leaves the ring buffer empty. The variant of
  StrangeAttractorsInputP2.cpp, which has no expiry times, appends the items after all
  integrated particles and leaves the ring buffer empty as well. The ring buffer is the
  one modelled from the spec.
\<close>

theorem updateMesh_drains_queue:
  assumes "updateMesh_pre thisParticleTimeList st"
  shows "\<exists>st'. updateMesh clk thisParticleTimeList st = Some st' \<and>
     drop (length (carried clk 0 (zip (particleList (latest st)) (timeList (latest st)))))
       (particleList (latest st')) = RingBuffer_contents (inputParticles st) \<and>
     drop (length (carried clk 0 (zip (particleList (latest st)) (timeList (latest st)))))
       (timeList (latest st')) =
     map (\<lambda>j. float_of_double
                (double_add (Finite (clk (length (particleList (latest st)) + j))) (timeDecay st)))
       [0..<length (RingBuffer_contents (inputParticles st))] \<and>
     RingBuffer_empty (inputParticles st') \<and>
     RingBuffer_contents (inputParticles st') = [] \<and>
     (\<exists>q'. InputP2_updateMesh opl (inputParticles st) =
            (q', map integrate_Array opl @ RingBuffer_contents (inputParticles st)) \<and>
          RingBuffer_empty q')"
proof -
  have "RingBuffer_inv (inputParticles st)" using assms by (simp add: updateMesh_pre_def)
  from InputP2_updateMesh_eq [OF this, of opl]
  have p2: "\<exists>q'. InputP2_updateMesh opl (inputParticles st) =
            (q', map integrate_Array opl @ RingBuffer_contents (inputParticles st)) \<and>
          RingBuffer_empty q'" .
  from updateMesh_result [OF assms, of clk]
  obtain st' where "updateMesh clk thisParticleTimeList st = Some st'"
    and "latest st' =
       \<lparr>particleList =
          map (integrate \<circ> fst) (carried clk 0 (zip (particleList (latest st)) (timeList (latest st))))
          @ RingBuffer_contents (inputParticles st),
        timeList =
          map snd (carried clk 0 (zip (particleList (latest st)) (timeList (latest st))))
          @ birth_times clk (length (particleList (latest st))) (timeDecay st)
              (length (RingBuffer_contents (inputParticles st)))\<rparr>"
    and "RingBuffer_empty (inputParticles st')"
    by blast
  then show ?thesis
    using p2 by (simp add: birth_times_def expiry_time_def RingBuffer_empty_contents)
qed

theorem updateMesh_drains_queue_witness:
  "updateMesh_pre Slot0 example_app \<and>
   (\<exists>st'. updateMesh (constant_clock 5) Slot0 example_app = Some st' \<and>
      drop 1 (particleList (latest st')) = [pv_c] \<and>
      drop 1 (timeList (latest st')) = [Finite 15] \<and>
      RingBuffer_empty (inputParticles st')) \<and>
   (\<exists>q'. InputP2_updateMesh [pv_a] (inputParticles example_app) =
          (q', [integrate_Array pv_a, pv_c]) \<and>
        RingBuffer_empty q')"
proof -
  have x: "float_of_double (double_add (Finite 5) (Finite 10)) = Finite 15"
    using expiry_time_5_10 by (simp add: expiry_time_def)
  from updateMesh_drains_queue [OF example_pre, of "constant_clock 5" "[pv_a]"]
  obtain st' where "updateMesh (constant_clock 5) Slot0 example_app = Some st'"
    and "drop (length [(pv_a, Finite 9)]) (particleList (latest st')) = [pv_c]"
    and "drop (length [(pv_a, Finite 9)]) (timeList (latest st')) =
         map (\<lambda>j. float_of_double
                    (double_add (Finite (constant_clock 5 (length [pv_a, pv_b] + j))) (Finite 10)))
           [0..<length [pv_c]]"
    and "RingBuffer_empty (inputParticles st')"
    and "\<exists>q'. InputP2_updateMesh [pv_a] (inputParticles example_app) =
            (q', map integrate_Array [pv_a] @ [pv_c]) \<and> RingBuffer_empty q'"
    unfolding example_latest ParticleTimeList.simps example_carried example_queue by blast
  then show ?thesis
    using example_pre by (simp add: constant_clock_def x)
qed

text \<open>
  C7. The ring buffer is first in, first out: after any items are pushed in order onto a
  consistent queue with room for them, popping once per queued item returns the items
  that were queued before, followed by the pushed items in the order of the pushes, and
  leaves the queue empty; the \<open>while\<close> loop of \<open>updateMesh\<close> appends them to the
  particle list in that same order. The ring buffer is the one modelled from the spec.
\<close>

theorem RingBuffer_fifo:
  assumes "RingBuffer_inv q" "rb_count q + length xs \<le> rb_capacity q"
  shows "\<exists>q' q''. RingBuffer_push_all xs q = Some q' \<and>
     RingBuffer_read_n (rb_count q + length xs) q' = Some (RingBuffer_contents q @ xs, q'') \<and>
     RingBuffer_empty q'' \<and>
     particleList (snd (updateMesh_while clk k td q' this)) =
       particleList this @ RingBuffer_contents q @ xs"
proof -
  from RingBuffer_push_all_contents [OF assms]
  obtain q' where p: "RingBuffer_push_all xs q = Some q'" and i: "RingBuffer_inv q'"
    and c: "RingBuffer_contents q' = RingBuffer_contents q @ xs"
    by blast
  have n: "rb_count q' = rb_count q + length xs"
    using RingBuffer_length_contents [of q'] RingBuffer_length_contents [of q] by (simp add: c)
  from RingBuffer_read_n_contents [OF i]
  obtain q'' where r: "RingBuffer_read_n (rb_count q') q' = Some (RingBuffer_contents q', q'')"
    and e: "RingBuffer_empty q''"
    by blast
  from updateMesh_while_eq [OF i, of clk k td this]
  obtain q1 where "updateMesh_while clk k td q' this =
     (q1, this\<lparr>particleList := particleList this @ RingBuffer_contents q',
                timeList := timeList this @ map (\<lambda>j. expiry_time (clk (k + j)) td) [0..<rb_count q']\<rparr>)"
    by blast
  then have w: "particleList (snd (updateMesh_while clk k td q' this)) =
       particleList this @ RingBuffer_contents q'"
    by simp
  show ?thesis using p r e w by (simp add: c n)
qed

theorem RingBuffer_fifo_witness:
  "RingBuffer_inv (RingBuffer_new 100 pv_b) \<and>
   rb_count (RingBuffer_new 100 pv_b) + length [pv_a, pv_b, pv_c] \<le> rb_capacity (RingBuffer_new 100 pv_b) \<and>
   (\<exists>q' q''. RingBuffer_push_all [pv_a, pv_b, pv_c] (RingBuffer_new 100 pv_b) = Some q' \<and>
      RingBuffer_read_n 3 q' = Some ([pv_a, pv_b, pv_c], q'') \<and> RingBuffer_empty q'')"
proof -
  have i: "RingBuffer_inv (RingBuffer_new 100 pv_b)" by (simp add: RingBuffer_inv_new)
  have c: "rb_count (RingBuffer_new 100 pv_b) + length [pv_a, pv_b, pv_c]
      \<le> rb_capacity (RingBuffer_new 100 pv_b)"
    by (simp add: RingBuffer_new_def)
  have z: "rb_count (RingBuffer_new 100 pv_b) = 0" by (simp add: RingBuffer_new_def)
  have n: "rb_count (RingBuffer_new 100 pv_b) + length [pv_a, pv_b, pv_c] = 3"
    by (simp add: z)
  from RingBuffer_fifo [OF i c, of "constant_clock 0" 0 "Finite 10" "\<lparr>particleList = [], timeList = []\<rparr>"]
  obtain q' q'' where "RingBuffer_push_all [pv_a, pv_b, pv_c] (RingBuffer_new 100 pv_b) = Some q'"
    and "RingBuffer_read_n 3 q' = Some ([pv_a, pv_b, pv_c], q'')" and "RingBuffer_empty q''"
    unfolding n RingBuffer_contents_new append_Nil by blast
  then have "\<exists>q' q''. RingBuffer_push_all [pv_a, pv_b, pv_c] (RingBuffer_new 100 pv_b) = Some q' \<and>
      RingBuffer_read_n 3 q' = Some ([pv_a, pv_b, pv_c], q'') \<and> RingBuffer_empty q''"
    by blast
  with i c show ?thesis by (simp only: simp_thms)
qed

text \<open>
  C9. After a call of \<open>frame\<close> and any ticks and seedings that follow it, the next call of
  \<open>frame\<close> finds a new value exactly if one of them was a tick; then it points the vertex
  buffer at the snapshot written last and holds that snapshot as the locked value;
  otherwise it changes nothing, and the source of the vertex buffer is the one the
  previous call left. The triple buffer is the one modelled from the spec.
\<close>

theorem frame_new_iff_published:
  assumes "app_inv st"
  shows "\<exists>st'. run evs (frame st) = Some st' \<and>
     (fst (lockNewValue (particleVertices st')) \<longleftrightarrow> list_ex is_Tick evs) \<and>
     (if list_ex is_Tick evs
      then vertexBuffer (frame st') =
             Some (length (particleList (latest st')), oldParticleList st') \<and>
           getLockedValue (particleVertices (frame st')) = latest st'
      else frame st' = st' \<and> vertexBuffer st' = vertexBuffer (frame st) \<and>
           getLockedValue (particleVertices st') = getLockedValue (particleVertices (frame st)))"
proof -
  from run_result [OF app_inv_frame [OF assms], of evs]
  obtain st' where s: "run evs (frame st) = Some st'"
    and f: "tb_fresh (particleVertices st') \<longleftrightarrow> list_ex is_Tick evs"
    and k: "vertexBuffer st' = vertexBuffer (frame st)"
      "getLockedValue (particleVertices st') = getLockedValue (particleVertices (frame st))"
    and c: "if list_ex is_Tick evs
      then posted st' = latest st' \<and> oldParticleList st' = tb_posted (particleVertices st')
      else particleVertices st' = particleVertices (frame st) \<and>
           oldParticleList st' = oldParticleList (frame st) \<and>
           oldTimeList st' = oldTimeList (frame st)"
    using frame_not_fresh [of st] by auto
  have l: "fst (lockNewValue (particleVertices st')) \<longleftrightarrow> list_ex is_Tick evs"
    using f by (simp add: lockNewValue_def)
  show ?thesis
  proof (cases "list_ex is_Tick evs")
    case True
    then have fr: "tb_fresh (particleVertices st')" using f by simp
    have p: "posted st' = latest st'" "oldParticleList st' = tb_posted (particleVertices st')"
      using c True by simp_all
    have "vertexBuffer (frame st') = Some (length (particleList (latest st')), oldParticleList st')"
      by (simp add: frame_fresh [OF fr] p)
    moreover have "getLockedValue (particleVertices (frame st')) = latest st'"
      using p(1) by (simp add: frame_fresh [OF fr] getLockedValue_def posted_def)
    ultimately show ?thesis using s l True by simp
  next
    case False
    then have "\<not> tb_fresh (particleVertices st')" using f by simp
    then have "frame st' = st'" by (rule frame_stale)
    then show ?thesis using s l k False by simp
  qed
qed

theorem frame_new_iff_published_witness:
  "app_inv example_app \<and>
   (\<exists>st'. run [Seed pv_b, Tick (constant_clock 5)] (frame example_app) = Some st' \<and>
      fst (lockNewValue (particleVertices st')) \<and>
      vertexBuffer (frame st') = Some (length (particleList (latest st')), oldParticleList st') \<and>
      getLockedValue (particleVertices (frame st')) = latest st') \<and>
   (\<exists>st'. run [Seed pv_b] (frame example_app) = Some st' \<and>
      \<not> fst (lockNewValue (particleVertices st')) \<and> frame st' = st' \<and>
      vertexBuffer st' = vertexBuffer (frame example_app))"
proof -
  from frame_new_iff_published [OF example_app_inv, of "[Seed pv_b, Tick (constant_clock 5)]"]
  have a: "\<exists>st'. run [Seed pv_b, Tick (constant_clock 5)] (frame example_app) = Some st' \<and>
      fst (lockNewValue (particleVertices st')) \<and>
      vertexBuffer (frame st') = Some (length (particleList (latest st')), oldParticleList st') \<and>
      getLockedValue (particleVertices (frame st')) = latest st'"
    by simp
  from frame_new_iff_published [OF example_app_inv, of "[Seed pv_b]"]
  have b: "\<exists>st'. run [Seed pv_b] (frame example_app) = Some st' \<and>
      \<not> fst (lockNewValue (particleVertices st')) \<and> frame st' = st' \<and>
      vertexBuffer st' = vertexBuffer (frame example_app)"
    by simp
  show ?thesis using example_app_inv a b by simp
qed

text \<open>
  C10. In the snapshot that one run of \<open>updateMesh\<close> writes, the particles carried over
  are the old particles at exactly the indices whose expiry time is later than the time
  read for them, taken by increasing index, so they stand in the order they had in the
  previous snapshot (each integrated and with its old expiry time, the pairs carried over
  a subsequence of the old pairs), and the particles taken from the ring buffer follow
  after all of them. In the variant of StrangeAttractorsInputP2.cpp every old particle is
  carried over, in order, and the particles taken from the ring buffer follow.
\<close>

theorem updateMesh_keeps_order:
  assumes "updateMesh_pre thisParticleTimeList st"
  shows "\<exists>st'. updateMesh clk thisParticleTimeList st = Some st' \<and>
     particleList (latest st') =
       map (\<lambda>i. integrate (particleList (latest st) ! i))
         (alive_indices clk (timeList (latest st)))
       @ RingBuffer_contents (inputParticles st) \<and>
     take (length (alive_indices clk (timeList (latest st)))) (timeList (latest st')) =
       map (\<lambda>i. timeList (latest st) ! i) (alive_indices clk (timeList (latest st))) \<and>
     sorted_wrt (<) (alive_indices clk (timeList (latest st))) \<and>
     set (alive_indices clk (timeList (latest st))) =
       {i. i < length (timeList (latest st)) \<and>
           ieee_greater (timeList (latest st) ! i) (Finite (clk i))} \<and>
     subseq
       (map (\<lambda>i. (particleList (latest st) ! i, timeList (latest st) ! i))
          (alive_indices clk (timeList (latest st))))
       (zip (particleList (latest st)) (timeList (latest st))) \<and>
     snd (InputP2_updateMesh opl (inputParticles st)) =
       map integrate_Array opl @ RingBuffer_contents (inputParticles st)"
proof -
  let ?opl = "particleList (latest st)" and ?otl = "timeList (latest st)"
  have inv: "RingBuffer_inv (inputParticles st)" and len: "length ?opl = length ?otl"
    using assms by (simp_all add: updateMesh_pre_def)
  from InputP2_updateMesh_eq [OF inv, of opl]
  have p2: "snd (InputP2_updateMesh opl (inputParticles st)) =
       map integrate_Array opl @ RingBuffer_contents (inputParticles st)"
    by auto
  have c: "carried clk 0 (zip ?opl ?otl) =
      map (\<lambda>i. (?opl ! i, ?otl ! i)) (alive_indices clk ?otl)"
    using len by (rule alive_indices_carried)
  have sub: "subseq (map (\<lambda>i. (?opl ! i, ?otl ! i)) (alive_indices clk ?otl)) (zip ?opl ?otl)"
    using carried_subseq [of clk 0 "zip ?opl ?otl"] unfolding c .
  from updateMesh_result [OF assms, of clk]
  obtain st' where u: "updateMesh clk thisParticleTimeList st = Some st'"
    and l: "latest st' =
       \<lparr>particleList = map (integrate \<circ> fst) (carried clk 0 (zip ?opl ?otl))
          @ RingBuffer_contents (inputParticles st),
        timeList = map snd (carried clk 0 (zip ?opl ?otl))
          @ birth_times clk (length ?opl) (timeDecay st)
              (length (RingBuffer_contents (inputParticles st)))\<rparr>"
    by blast
  have pl: "particleList (latest st') =
       map (\<lambda>i. integrate (?opl ! i)) (alive_indices clk ?otl)
       @ RingBuffer_contents (inputParticles st)"
    unfolding l c by (simp add: comp_def)
  have tl: "take (length (alive_indices clk ?otl)) (timeList (latest st')) =
       map (\<lambda>i. ?otl ! i) (alive_indices clk ?otl)"
    unfolding l c by (simp add: comp_def)
  from u pl tl alive_indices_sorted [of clk ?otl] alive_indices_set [of clk ?otl] sub p2
  show ?thesis by (intro exI [of _ st'] conjI)
qed

theorem updateMesh_keeps_order_witness:
  "updateMesh_pre Slot0 example_app \<and>
   (\<exists>st'. updateMesh (constant_clock 2) Slot0 example_app = Some st' \<and>
      particleList (latest st') = [integrate pv_a, integrate pv_b, pv_c] \<and>
      take 2 (timeList (latest st')) = [Finite 9, Finite 3]) \<and>
   (\<exists>st'. updateMesh (constant_clock 5) Slot0 example_app = Some st' \<and>
      particleList (latest st') = [integrate pv_a, pv_c]) \<and>
   (\<exists>st'. updateMesh (\<lambda>k. if k = 0 then 9 else 2) Slot0 example_app = Some st' \<and>
      particleList (latest st') = [integrate pv_b, pv_c]) \<and>
   snd (InputP2_updateMesh [pv_a, pv_b] (inputParticles example_app)) =
     [integrate_Array pv_a, integrate_Array pv_b, pv_c]"
proof -
  have i2: "alive_indices (constant_clock 2) [Finite 9, Finite 3] = [0, 1]"
    by (simp add: alive_indices_def constant_clock_def upt_rec)
  have i5: "alive_indices (constant_clock 5) [Finite 9, Finite 3] = [0]"
    by (simp add: alive_indices_def constant_clock_def upt_rec)
  have i9: "alive_indices (\<lambda>k. if k = 0 then 9 else 2) [Finite 9, Finite 3] = [1]"
    by (simp add: alive_indices_def upt_rec)
  from updateMesh_keeps_order [OF example_pre, of "constant_clock 2" "[pv_a, pv_b]"]
  obtain st2 where "updateMesh (constant_clock 2) Slot0 example_app = Some st2"
    and "particleList (latest st2) = map (\<lambda>i. integrate ([pv_a, pv_b] ! i)) [0, 1] @ [pv_c]"
    and "take (length [0, 1::nat]) (timeList (latest st2)) =
         map (\<lambda>i. [Finite 9, Finite 3] ! i) [0, 1]"
    and p2: "snd (InputP2_updateMesh [pv_a, pv_b] (inputParticles example_app)) =
         map integrate_Array [pv_a, pv_b] @ [pv_c]"
    unfolding example_latest ParticleTimeList.simps example_queue i2 by blast
  then have a: "\<exists>st'. updateMesh (constant_clock 2) Slot0 example_app = Some st' \<and>
      particleList (latest st') = [integrate pv_a, integrate pv_b, pv_c] \<and>
      take 2 (timeList (latest st')) = [Finite 9, Finite 3]"
    by (simp add: numeral_2_eq_2)
  from updateMesh_keeps_order [OF example_pre, of "constant_clock 5" "[]"]
  obtain st5 where "updateMesh (constant_clock 5) Slot0 example_app = Some st5"
    and "particleList (latest st5) = map (\<lambda>i. integrate ([pv_a, pv_b] ! i)) [0] @ [pv_c]"
    unfolding example_latest ParticleTimeList.simps example_queue i5 by blast
  then have b: "\<exists>st'. updateMesh (constant_clock 5) Slot0 example_app = Some st' \<and>
      particleList (latest st') = [integrate pv_a, pv_c]"
    by simp
  from updateMesh_keeps_order [OF example_pre, of "\<lambda>k. if k = 0 then 9 else 2" "[]"]
  obtain st9 where "updateMesh (\<lambda>k. if k = 0 then 9 else 2) Slot0 example_app = Some st9"
    and "particleList (latest st9) = map (\<lambda>i. integrate ([pv_a, pv_b] ! i)) [1] @ [pv_c]"
    unfolding example_latest ParticleTimeList.simps example_queue i9 by blast
  then have c: "\<exists>st'. updateMesh (\<lambda>k. if k = 0 then 9 else 2) Slot0 example_app = Some st' \<and>
      particleList (latest st') = [integrate pv_b, pv_c]"
    by simp
  from p2 have d: "snd (InputP2_updateMesh [pv_a, pv_b] (inputParticles example_app)) =
     [integrate_Array pv_a, integrate_Array pv_b, pv_c]"
    by simp
  from example_pre a b c d show ?thesis by (intro conjI)
qed

end
